theory Spec2Isabelle
  imports Complex_Main "HOL-Library.Sublist" "HOL-Library.AList"
    "HOL-Library.List_Lexorder" "HOL-Library.Char_ord" "HOL-Library.Product_Lexorder"
begin

section \<open>Python string primitives used by the sources\<close>

text \<open>
  A Python \<open>str\<close> is modelled as a \<open>string\<close> (a list of characters); \<open>len\<close> is
  \<open>length\<close>, \<open>s[:n]\<close> is \<open>take n s\<close>, \<open>s.startswith(p)\<close> is \<open>prefix p s\<close> and
  \<open>p in s\<close> is \<open>sublist p s\<close>.  None of the results below depends on the alphabet.
\<close>

definition is_space :: "char \<Rightarrow> bool" where
  \<comment> \<open>the characters \<open>str.isspace\<close> and the regular expression class \<open>\s\<close> accept\<close>
  "is_space c = ((of_char c :: nat) \<in> {9, 10, 11, 12, 13, 28, 29, 30, 31, 32, 133, 160})"

definition strip :: "string \<Rightarrow> string" where
  \<comment> \<open>\<open>str.strip()\<close>\<close>
  "strip s = rev (dropWhile is_space (rev (dropWhile is_space s)))"

definition lower_char :: "char \<Rightarrow> char" where
  "lower_char c =
     (let n = (of_char c :: nat)
      in if (65 \<le> n \<and> n \<le> 90) \<or> (192 \<le> n \<and> n \<le> 222 \<and> n \<noteq> 215)
         then char_of (n + 32) else c)"

definition lower :: "string \<Rightarrow> string" where
  \<comment> \<open>\<open>str.lower()\<close>\<close>
  "lower s = map lower_char s"

fun split_nl :: "nat \<Rightarrow> string \<Rightarrow> string list" where
  \<comment> \<open>\<open>s.split("\n", maxsplit)\<close>\<close>
  "split_nl 0 s = [s]"
| "split_nl (Suc n) s =
     (if CHR 0x0A \<in> set s
      then takeWhile (\<lambda>c. c \<noteq> CHR 0x0A) s # split_nl n (tl (dropWhile (\<lambda>c. c \<noteq> CHR 0x0A) s))
      else [s])"

function replace :: "string \<Rightarrow> string \<Rightarrow> string \<Rightarrow> string" where
  \<comment> \<open>\<open>s.replace(old, new)\<close>: every non-overlapping occurrence, leftmost first\<close>
  "replace old new s =
     (if old = [] then new @ concat (map (\<lambda>c. c # new) s)
      else if s = [] then []
      else if prefix old s then new @ replace old new (drop (length old) s)
      else hd s # replace old new (tl s))"
  by pat_completeness auto
termination
  by (relation "measure (\<lambda>(old, new, s). length s)") auto

declare replace.simps [simp del]

fun show_digits :: "nat \<Rightarrow> nat \<Rightarrow> string" where
  \<comment> \<open>decimal digits of a number, most significant first; the first argument bounds the
      number of digits\<close>
  "show_digits 0 n = []"
| "show_digits (Suc k) n =
     (if n < 10 then [char_of (48 + n)]
      else show_digits k (n div 10) @ [char_of (48 + n mod 10)])"

definition show_nat :: "nat \<Rightarrow> string" where
  \<comment> \<open>\<open>str(n)\<close> for a non-negative integer\<close>
  "show_nat n = show_digits (Suc n) n"

fun join :: "string \<Rightarrow> string list \<Rightarrow> string" where
  \<comment> \<open>\<open>sep.join(parts)\<close>\<close>
  "join sep [] = []"
| "join sep [x] = x"
| "join sep (x # y # ys) = x @ sep @ join sep (y # ys)"

section \<open>config.py\<close>

definition MODELS :: "(string \<times> string) list" where
  "MODELS =
     [(''router'', ''qwen2.5:1.5b''),
      (''companion'', ''qwen2.5:7b''),
      (''fast_code'', ''qwen2.5-coder:3b''),
      (''worker_light'', ''qwen2.5-coder:7b''),
      (''worker_heavy'', ''qwen2.5-coder:14b''),
      (''beast'', ''qwen2.5-coder:32b-instruct-q3_K_M''),
      (''cloud'', ''cloud'')]"

definition MAX_CONTEXT_TOKENS :: int where
  "MAX_CONTEXT_TOKENS = 2000"

definition CHARS_PER_TOKEN :: int where
  "CHARS_PER_TOKEN = 4"

definition MAX_TOOL_LOOPS :: nat where
  "MAX_TOOL_LOOPS = 25"

definition ROUTER_PROMPT_format :: "string \<Rightarrow> string" where
  \<comment> \<open>\<open>ROUTER_PROMPT.format(message=m)\<close>: the template has the single field \<open>{message}\<close>\<close>
  "ROUTER_PROMPT_format m =
     ''Classify the user message into exactly one category. Reply with ONLY the category word, nothing else.\<newline>\<newline>'' @
     ''Categories:\<newline>'' @
     ''- companion: casual conversation, greetings, personal chat, questions about life/opinions, getting to know each other\<newline>'' @
     ''- code_simple: short code snippets, simple functions, basic syntax questions, quick fixes\<newline>'' @
     ''- code_complex: multi-file code, architecture, debugging complex issues, refactoring, algorithms\<newline>'' @
     ''- code_beast: very large codebases, extremely complex algorithms, performance-critical code, system design implementation\<newline>'' @
     ''- cloud: needs advanced reasoning, large code generation, architecture design, or the user explicitly asks for cloud/sonnet\<newline>\<newline>'' @
     ''Message: '' @ m @ ''\<newline>\<newline>Category:''"

text \<open>
  The long prose templates of config.py (\<open>BOLT_IDENTITY\<close> and the three mode contexts) and
  two sentences of identity.py and brain.py with characters outside ASCII are kept as
  fields of a record: no result below depends on their text.  \<open>BOLT_IDENTITY\<close>
  ends with the two fields \<open>{user_profile}\<close> and \<open>{mode_context}\<close>, each on a line of its
  own, so \<open>BOLT_IDENTITY.format\<close> is the text before them followed by the two values.
\<close>

record templates =
  BOLT_IDENTITY_head :: string
  COMPANION_CONTEXT :: string
  BUILD_CONTEXT :: string
  CODE_CONTEXT :: string
  PROFILE_FOOTER :: string \<comment> \<open>the last line of the text of \<open>get_profile_text\<close>\<close>
  CLOUD_FAILED :: string \<comment> \<open>the text \<open>_generate_with_tools\<close> returns when the cloud call fails at once\<close>

definition BOLT_IDENTITY_format :: "templates \<Rightarrow> string \<Rightarrow> string \<Rightarrow> string" where
  "BOLT_IDENTITY_format cfg user_profile mode_context =
     BOLT_IDENTITY_head cfg @ user_profile @ ''\<newline>'' @ mode_context"

section \<open>brain.py: the router\<close>

definition pick_model :: "string \<Rightarrow> bool \<Rightarrow> string \<Rightarrow> string" where
  \<comment> \<open>\<open>_pick_model(category)\<close>; the first two arguments are the module variable
      \<open>_current_mode\<close> and the answer of \<open>cloud.is_available()\<close>\<close>
  "pick_model current_mode cloud_is_available category =
     (if current_mode = ''companion'' \<and> category = ''companion'' then ''companion''
      else if category \<in> set [''cloud'', ''code_beast''] then
        (if cloud_is_available then ''cloud''
         else if category = ''code_beast'' then ''beast'' else ''worker_heavy'')
      else (case map_of [(''companion'', ''companion''),
                         (''code_simple'', ''fast_code''),
                         (''code_complex'', ''worker_heavy'')] category of
              Some k \<Rightarrow> k
            | None \<Rightarrow> ''companion''))"

definition pick_mode_for_category :: "string \<Rightarrow> string" where
  "pick_mode_for_category category = (if category = ''companion'' then ''companion'' else ''code'')"

section \<open>memory.py and identity.py: the store\<close>

text \<open>
  One record per table of \<open>bolt.db\<close>, each table a list of rows in insertion order.  An
  \<open>AUTOINCREMENT\<close> key is the table's sequence counter plus one.  A nullable column is an
  \<open>option\<close>.  The \<open>ts\<close> columns, which no operation below reads, are left out; the clock
  value behind \<open>datetime('now')\<close> is an argument of the operations on tasks.
\<close>

record message_row =
  msg_id :: nat
  msg_session_id :: string
  msg_role :: string
  msg_content :: string
  msg_token_estimate :: "int option"

record summary_row =
  sum_id :: nat
  sum_session_id :: string
  sum_summary :: string
  sum_covers_up_to :: "nat option"
  sum_token_estimate :: "int option"

record task_row =
  task_id :: nat
  task_created_at :: nat
  task_updated_at :: nat
  task_title :: string
  task_status :: string
  task_context_json :: "string option"

record profile_row =
  prof_category :: string
  prof_key :: string
  prof_value :: string
  prof_confidence :: real
  prof_source :: "string option"

record relay_row =
  relay_id :: nat
  relay_from_model :: string
  relay_handoff :: string
  relay_session_id :: "string option"

record db =
  messages :: "message_row list"
  messages_seq :: nat
  summaries :: "summary_row list"
  summaries_seq :: nat
  tasks :: "task_row list"
  tasks_seq :: nat
  timeline :: "(string \<times> string option) list"
  user_profile :: "profile_row list"
  context_relay :: "relay_row list"
  context_relay_seq :: nat

definition empty_db :: db where
  "empty_db = \<lparr>messages = [], messages_seq = 0, summaries = [], summaries_seq = 0,
     tasks = [], tasks_seq = 0, timeline = [], user_profile = [],
     context_relay = [], context_relay_seq = 0\<rparr>"

definition estimate_tokens :: "string \<Rightarrow> int" where
  "estimate_tokens text = max 1 (int (length text) div CHARS_PER_TOKEN)"

definition save_message :: "db \<Rightarrow> string \<Rightarrow> string \<Rightarrow> string \<Rightarrow> nat \<times> db" where
  "save_message d session_id role content =
     (let tokens = estimate_tokens content;
          lastrowid = messages_seq d + 1
      in (lastrowid,
          d\<lparr>messages := messages d @
                 [\<lparr>msg_id = lastrowid, msg_session_id = session_id, msg_role = role,
                   msg_content = content, msg_token_estimate = Some tokens\<rparr>],
            messages_seq := lastrowid\<rparr>))"

definition first_row :: "'a list \<Rightarrow> 'a option" where
  \<comment> \<open>\<open>fetchone()\<close>\<close>
  "first_row rows = (case rows of [] \<Rightarrow> None | r # _ \<Rightarrow> Some r)"

definition get_recent_messages :: "db \<Rightarrow> string \<Rightarrow> nat \<Rightarrow> message_row list" where
  \<comment> \<open>\<open>ORDER BY id DESC LIMIT ?\<close>, then reversed\<close>
  "get_recent_messages d session_id limit =
     rev (take limit (rev (sort_key msg_id
       (filter (\<lambda>m. msg_session_id m = session_id) (messages d)))))"

definition get_latest_summary :: "db \<Rightarrow> string \<Rightarrow> summary_row option" where
  "get_latest_summary d session_id =
     first_row (rev (sort_key sum_id
       (filter (\<lambda>s. sum_session_id s = session_id) (summaries d))))"

definition upsert_task :: "db \<Rightarrow> nat \<Rightarrow> string \<Rightarrow> string \<Rightarrow> string option \<Rightarrow> db" where
  \<comment> \<open>the second argument is the clock\<close>
  "upsert_task d now title status context_json =
     (case first_row (filter (\<lambda>t. task_status t = ''active'') (tasks d)) of
        Some existing \<Rightarrow>
          d\<lparr>tasks := map (\<lambda>t. if task_id t = task_id existing
                                then t\<lparr>task_title := title, task_status := status,
                                       task_context_json := context_json,
                                       task_updated_at := now\<rparr>
                                else t) (tasks d)\<rparr>
      | None \<Rightarrow>
          d\<lparr>tasks := tasks d @
                 [\<lparr>task_id = tasks_seq d + 1, task_created_at = now, task_updated_at = now,
                   task_title = title, task_status = status,
                   task_context_json = context_json\<rparr>],
            tasks_seq := tasks_seq d + 1\<rparr>)"

definition get_active_task :: "db \<Rightarrow> task_row option" where
  \<comment> \<open>\<open>ORDER BY updated_at DESC LIMIT 1\<close>; among rows of equal \<open>updated_at\<close> the
      database may return any, the model returns the one inserted last\<close>
  "get_active_task d =
     first_row (rev (sort_key task_updated_at
       (filter (\<lambda>t. task_status t = ''active'') (tasks d))))"

definition complete_active_task :: "db \<Rightarrow> nat \<Rightarrow> db" where
  "complete_active_task d now =
     d\<lparr>tasks := map (\<lambda>t. if task_status t = ''active''
                           then t\<lparr>task_status := ''done'', task_updated_at := now\<rparr>
                           else t) (tasks d)\<rparr>"

definition log_event :: "db \<Rightarrow> string \<Rightarrow> string option \<Rightarrow> db" where
  \<comment> \<open>also \<open>state.log\<close>, which only calls it\<close>
  "log_event d event details = d\<lparr>timeline := timeline d @ [(event, details)]\<rparr>"

subsection \<open>identity.py: profile facts and handoffs\<close>

definition fact_at :: "string \<Rightarrow> string \<Rightarrow> profile_row \<Rightarrow> bool" where
  \<comment> \<open>\<open>WHERE category = ? AND key = ?\<close>\<close>
  "fact_at category key r = (prof_category r = category \<and> prof_key r = key)"

definition save_fact :: "db \<Rightarrow> string \<Rightarrow> string \<Rightarrow> string \<Rightarrow> real \<Rightarrow> string option \<Rightarrow> db" where
  "save_fact d category key val confidence source =
     (case first_row (filter (fact_at category key) (user_profile d)) of
        Some existing \<Rightarrow>
          if confidence \<ge> prof_confidence existing
          then d\<lparr>user_profile := map (\<lambda>r. if fact_at category key r
                                             then r\<lparr>prof_value := val,
                                                    prof_confidence := confidence,
                                                    prof_source := source\<rparr>
                                             else r) (user_profile d)\<rparr>
          else d
      | None \<Rightarrow>
          d\<lparr>user_profile := user_profile d @
                 [\<lparr>prof_category = category, prof_key = key, prof_value = val,
                   prof_confidence = confidence, prof_source = source\<rparr>]\<rparr>)"

definition get_profile :: "db \<Rightarrow> (string \<times> (string \<times> string \<times> real) list) list" where
  \<comment> \<open>a Python dict is an association list in insertion order; assigning to a key that
      is present keeps its place\<close>
  "get_profile d =
     foldl (\<lambda>profile r.
              AList.update (prof_category r)
                (AList.update (prof_key r) (prof_value r, prof_confidence r)
                   (case map_of profile (prof_category r) of None \<Rightarrow> [] | Some facts \<Rightarrow> facts))
                profile)
       [] (sort_key (\<lambda>r. (prof_category r, prof_key r)) (user_profile d))"

definition get_profile_text :: "templates \<Rightarrow> db \<Rightarrow> string" where
  "get_profile_text cfg d =
     (let profile = get_profile d
      in if profile = []
         then ''You don't know much about this user yet. Pay attention and learn naturally.''
         else join ''\<newline>''
                ([''What you know about this user:''] @
                 map (\<lambda>(cat, facts).
                        ''  '' @ cat @ '': '' @
                        join '', '' (map (\<lambda>(k, v). k @ '': '' @ fst v) facts)) profile @
                 [PROFILE_FOOTER cfg]))"

definition get_latest_handoff :: "db \<Rightarrow> string option \<Rightarrow> relay_row option" where
  "get_latest_handoff d session_id =
     (if session_id \<noteq> None \<and> session_id \<noteq> Some []
      then first_row (rev (sort_key relay_id
             (filter (\<lambda>r. relay_session_id r = session_id) (context_relay d))))
      else first_row (rev (sort_key relay_id (context_relay d))))"

definition sanitize_for_prompt :: "string \<Rightarrow> string" where
  \<comment> \<open>\<open>_sanitize_for_prompt\<close>\<close>
  "sanitize_for_prompt text =
     (if text = [] then text
      else let text = replace ''}'' [] (replace ''{'' [] text);
               text = replace ''</tool'' ''&lt;/tool'' (replace ''<tool'' ''&lt;tool'' text)
           in if length text > 2000 then take 2000 text @ ''...'' else text)"

definition build_identity :: "templates \<Rightarrow> db \<Rightarrow> string \<Rightarrow> string option \<Rightarrow> string" where
  "build_identity cfg d mode session_id =
     (let profile_text = sanitize_for_prompt (get_profile_text cfg d);
          mode_context =
            (case map_of [(''companion'', COMPANION_CONTEXT cfg),
                          (''build'', BUILD_CONTEXT cfg),
                          (''code'', CODE_CONTEXT cfg)] mode of
               Some c \<Rightarrow> c
             | None \<Rightarrow> COMPANION_CONTEXT cfg);
          identity_text = BOLT_IDENTITY_format cfg profile_text mode_context
      in case get_latest_handoff d session_id of
           None \<Rightarrow> identity_text
         | Some handoff \<Rightarrow>
             identity_text @ ''\<newline>\<newline>[Handoff from previous brain region ('' @
             relay_from_model handoff @ '')]: '' @ sanitize_for_prompt (relay_handoff handoff))"

definition stored_fact :: "db \<Rightarrow> string \<Rightarrow> string \<Rightarrow> profile_row option" where
  \<comment> \<open>the row \<open>save_fact\<close> reads: \<open>SELECT ... WHERE category = ? AND key = ?\<close>, \<open>fetchone()\<close>\<close>
  "stored_fact d category key = first_row (filter (fact_at category key) (user_profile d))"

text \<open>Scenario S5 of the specification.\<close>

definition S5_db1 :: db where
  "S5_db1 = save_fact empty_db ''name'' ''name'' ''Alex'' 0.9 None"

definition S5_db2 :: db where
  "S5_db2 = save_fact S5_db1 ''name'' ''name'' ''Ally'' 0.4 None"

definition S5_db3 :: db where
  "S5_db3 = save_fact S5_db2 ''name'' ''name'' ''Alex2'' 0.9 None"

subsection \<open>Sequences of task operations\<close>

datatype task_op = Upsert nat string string "string option" | Complete nat

fun apply_task_op :: "db \<Rightarrow> task_op \<Rightarrow> db" where
  "apply_task_op d (Upsert now title status context_json) =
     upsert_task d now title status context_json"
| "apply_task_op d (Complete now) = complete_active_task d now"

definition run_task_ops :: "db \<Rightarrow> task_op list \<Rightarrow> db" where
  "run_task_ops d ops = foldl apply_task_op d ops"

definition active_tasks :: "db \<Rightarrow> task_row list" where
  "active_tasks d = filter (\<lambda>t. task_status t = ''active'') (tasks d)"

definition tasks_wf :: "db \<Rightarrow> bool" where
  \<comment> \<open>what \<open>id INTEGER PRIMARY KEY AUTOINCREMENT\<close> guarantees of the table\<close>
  "tasks_wf d =
     (distinct (map task_id (tasks d)) \<and> list_all (\<lambda>t. task_id t \<le> tasks_seq d) (tasks d))"

section \<open>brain.py: the context assembler\<close>

type_synonym chat_message = "string \<times> string" \<comment> \<open>\<open>{"role": r, "content": c}\<close>\<close>

definition row_cost :: "message_row \<Rightarrow> int" where
  \<comment> \<open>\<open>row["token_estimate"] or memory.estimate_tokens(row["content"])\<close>\<close>
  "row_cost row =
     (case msg_token_estimate row of
        None \<Rightarrow> estimate_tokens (msg_content row)
      | Some n \<Rightarrow> if n = 0 then estimate_tokens (msg_content row) else n)"

fun select_recent :: "int \<Rightarrow> int \<Rightarrow> message_row list \<Rightarrow> message_row list" where
  \<comment> \<open>the loop over \<open>reversed(recent)\<close>: budget, \<open>total_cost\<close>, the rows still to visit;
      the result is \<open>selected\<close>, before it is reversed\<close>
  "select_recent budget total_cost [] = []"
| "select_recent budget total_cost (row # rows) =
     (let cost = row_cost row
      in if total_cost + cost > budget then []
         else row # select_recent budget (total_cost + cost) rows)"

definition wire_role :: "string \<Rightarrow> string" where
  "wire_role role =
     (if role \<in> set [''tool'', ''tool_result''] then ''system''
      else if role \<notin> set [''user'', ''assistant'', ''system''] then ''user''
      else role)"

definition build_context_with_identity ::
  "templates \<Rightarrow> db \<Rightarrow> string \<Rightarrow> string \<Rightarrow> chat_message list" where
  \<comment> \<open>\<open>_build_context_with_identity(session_id, mode)\<close>\<close>
  "build_context_with_identity cfg d session_id mode =
     (let budget = MAX_CONTEXT_TOKENS;
          bolt_identity = build_identity cfg d mode (Some session_id);
          messages = [(''system'', bolt_identity)];
          budget = budget - estimate_tokens bolt_identity;
          (messages, budget) =
            (case get_latest_summary d session_id of
               None \<Rightarrow> (messages, budget)
             | Some summary \<Rightarrow>
                 let summary_text = ''[Conversation summary so far]: '' @ sum_summary summary;
                     cost = estimate_tokens summary_text
                 in if cost < budget
                    then (messages @ [(''system'', summary_text)], budget - cost)
                    else (messages, budget));
          (messages, budget) =
            (case get_active_task d of
               None \<Rightarrow> (messages, budget)
             | Some task \<Rightarrow>
                 let task_text = ''[Current task]: '' @ task_title task @ '' (status: '' @
                                 task_status task @ '')'';
                     cost = estimate_tokens task_text
                 in if cost < budget
                    then (messages @ [(''system'', task_text)], budget - cost)
                    else (messages, budget));
          recent = get_recent_messages d session_id 50;
          selected = rev (select_recent budget 0 (rev recent))
      in messages @ map (\<lambda>row. (wire_role (msg_role row), msg_content row)) selected)"

definition build_context :: "db \<Rightarrow> string \<Rightarrow> string \<Rightarrow> chat_message list" where
  \<comment> \<open>\<open>memory.build_context(session_id, system_prompt)\<close>, the assembler without the identity\<close>
  "build_context d session_id system_prompt =
     (let budget = MAX_CONTEXT_TOKENS;
          messages = [];
          (messages, budget) =
            (if system_prompt \<noteq> []
             then (messages @ [(''system'', system_prompt)],
                   budget - estimate_tokens system_prompt)
             else (messages, budget));
          (messages, budget) =
            (case get_latest_summary d session_id of
               None \<Rightarrow> (messages, budget)
             | Some summary \<Rightarrow>
                 let summary_text = ''[Conversation summary so far]: '' @ sum_summary summary;
                     cost = estimate_tokens summary_text
                 in if cost < budget
                    then (messages @ [(''system'', summary_text)], budget - cost)
                    else (messages, budget));
          (messages, budget) =
            (case get_active_task d of
               None \<Rightarrow> (messages, budget)
             | Some task \<Rightarrow>
                 let task_text = ''[Current task]: '' @ task_title task @ '' (status: '' @
                                 task_status task @ '')'';
                     cost = estimate_tokens task_text
                 in if cost < budget
                    then (messages @ [(''system'', task_text)], budget - cost)
                    else (messages, budget));
          recent = get_recent_messages d session_id 50;
          selected = rev (select_recent budget 0 (rev recent))
      in messages @ map (\<lambda>row. (wire_role (msg_role row), msg_content row)) selected)"

definition context_tokens :: "chat_message list \<Rightarrow> int" where
  \<comment> \<open>the sum of the token estimates of a message list\<close>
  "context_tokens msgs = sum_list (map (\<lambda>(role, content). estimate_tokens content) msgs)"

definition messages_estimated :: "db \<Rightarrow> bool" where
  \<comment> \<open>every message row holds the estimate \<open>save_message\<close> stores\<close>
  "messages_estimated d =
     list_all (\<lambda>m. msg_token_estimate m = Some (estimate_tokens (msg_content m))) (messages d)"

section \<open>tools.py: parsing tool calls\<close>

text \<open>
  The pattern of \<open>parse_tool_calls\<close> is \<open><tool\s+name="([^"]+)">(.*?)</tool>\<close>, matched
  with \<open>re.DOTALL\<close>.  Backtracking never finds a second way to match it at a position:
  the character after the longest run of white space is not white space, the character after
  the longest run of non-quotes is a quote, and the lazy group ends at the first
  \<open></tool>\<close>.  So matching at a position is the function below.
\<close>

fun find_sub :: "string \<Rightarrow> string \<Rightarrow> (string \<times> string) option" where
  \<comment> \<open>the text before and the text after the first occurrence of a string\<close>
  "find_sub needle [] = (if needle = [] then Some ([], []) else None)"
| "find_sub needle (c # cs) =
     (if prefix needle (c # cs) then Some ([], drop (length needle) (c # cs))
      else map_option (\<lambda>(before, after). (c # before, after)) (find_sub needle cs))"

definition match_tool_call :: "string \<Rightarrow> (string \<times> string \<times> string) option" where
  \<comment> \<open>a match that starts at the first character: the two groups and the text after it\<close>
  "match_tool_call s =
     (if \<not> prefix ''<tool'' s then None
      else let s1 = drop 5 s;
               s2 = dropWhile is_space s1
           in if takeWhile is_space s1 = [] then None
              else if \<not> prefix ''name=\"'' s2 then None
              else let s3 = drop 6 s2;
                       name = takeWhile (\<lambda>c. c \<noteq> CHR ''\"'') s3;
                       s4 = dropWhile (\<lambda>c. c \<noteq> CHR ''\"'') s3
                   in if name = [] then None
                      else if \<not> prefix ''\">'' s4 then None
                      else (case find_sub ''</tool>'' (drop 2 s4) of
                              None \<Rightarrow> None
                            | Some (args, rest) \<Rightarrow> Some (name, args, rest)))"

lemma find_sub_shorter: "find_sub needle s = Some (before, after) \<Longrightarrow> length after \<le> length s"
  by (induction s arbitrary: before) (auto split: if_splits)

lemma match_tool_call_shorter:
  assumes "match_tool_call s = Some (name, args, rest)"
  shows "length rest < length s"
proof -
  let ?s1 = "drop 5 s"
  let ?s2 = "dropWhile is_space ?s1"
  let ?s3 = "drop 6 ?s2"
  let ?s4 = "dropWhile (\<lambda>c. c \<noteq> CHR ''\"'') ?s3"
  from assms have p: "prefix ''<tool'' s" and f: "find_sub ''</tool>'' (drop 2 ?s4) = Some (args, rest)"
    by (auto simp: match_tool_call_def Let_def split: if_splits option.splits)
  from p have "5 \<le> length s"
    using prefix_length_le by fastforce
  then have "length ?s1 < length s"
    by simp
  moreover have "length ?s2 \<le> length ?s1"
    by (rule length_dropWhile_le)
  moreover have "length ?s4 \<le> length ?s3"
    by (rule length_dropWhile_le)
  moreover from find_sub_shorter [OF f] have "length rest \<le> length (drop 2 ?s4)" .
  ultimately show ?thesis
    by simp
qed

function findall_tool_calls :: "string \<Rightarrow> (string \<times> string) list" where
  \<comment> \<open>\<open>re.findall(pattern, text, re.DOTALL)\<close>: the groups of the matches, leftmost first,
      the search going on after each match\<close>
  "findall_tool_calls [] = []"
| "findall_tool_calls (c # cs) =
     (case match_tool_call (c # cs) of
        Some (name, args, rest) \<Rightarrow> (name, args) # findall_tool_calls rest
      | None \<Rightarrow> findall_tool_calls cs)"
  by pat_completeness auto
termination
  by (relation "measure length") (auto dest: match_tool_call_shorter)

function sub_tool_calls :: "string \<Rightarrow> string" where
  \<comment> \<open>\<open>re.sub(pattern, "", text, flags=re.DOTALL)\<close>\<close>
  "sub_tool_calls [] = []"
| "sub_tool_calls (c # cs) =
     (case match_tool_call (c # cs) of
        Some (name, args, rest) \<Rightarrow> sub_tool_calls rest
      | None \<Rightarrow> c # sub_tool_calls cs)"
  by pat_completeness auto
termination
  by (relation "measure length") (auto dest: match_tool_call_shorter)

definition parse_tool_calls :: "string \<Rightarrow> (string \<times> string) list \<times> string" where
  "parse_tool_calls text = (findall_tool_calls text, strip (sub_tool_calls text))"

definition format_tool_result :: "string \<Rightarrow> string \<Rightarrow> string" where
  "format_tool_result name result =
     ''<tool_result name=\"'' @ name @ ''\">'' @ result @ ''</tool_result>''"






section \<open>brain.py: inference, classification and the tool loop\<close>

text \<open>
  The world outside the program (the model server, the cloud provider, what the tools
  touch) is a state of an arbitrary type \<open>'e\<close>, and the program reaches it through four
  operations, which the results below leave arbitrary:
  \<^item> \<open>ollama_post\<close>: what \<open>_ollama_chat\<close> yields, joined, for a model, a non-empty cleaned
    message list and the \<open>stream\<close> flag (the HTTP exchange, its error texts and its one
    retry with a smaller context);
  \<^item> \<open>cloud_chat\<close>: the chunks \<open>cloud.chat\<close> yields, joined, and the text of the exception
    it raised, if it raised one;
  \<^item> \<open>cloud_is_available\<close>: the answer of \<open>cloud.is_available()\<close>;
  \<^item> \<open>TOOLS\<close>: the registry; a tool returns its result or raises (\<open>Inl\<close>, with the text
    of the exception).
  The \<open>stream_callback\<close> only prints; what remains of it is whether one was given.
  \<open>inference_calls\<close> counts the calls of the inference client, \<open>_ollama_chat\<close> and
  \<open>cloud.chat\<close>.
\<close>

datatype py_error = KeyError string

record 'e backend =
  ollama_post :: "'e \<Rightarrow> string \<Rightarrow> chat_message list \<Rightarrow> bool \<Rightarrow> string \<times> 'e"
  cloud_chat :: "'e \<Rightarrow> chat_message list \<Rightarrow> (string \<times> string option) \<times> 'e"
  cloud_is_available :: "'e \<Rightarrow> bool"
  TOOLS :: "string \<Rightarrow> ('e \<Rightarrow> string \<Rightarrow> (string + string) \<times> 'e) option"

record 'e world =
  env :: 'e
  store :: db
  inference_calls :: nat

definition MODELS_lookup :: "string \<Rightarrow> py_error + string" where
  \<comment> \<open>\<open>MODELS[key]\<close>\<close>
  "MODELS_lookup k = (case map_of MODELS k of None \<Rightarrow> Inl (KeyError k) | Some m \<Rightarrow> Inr m)"

definition clean_step :: "chat_message list \<Rightarrow> chat_message \<Rightarrow> chat_message list" where
  \<comment> \<open>one round of the first loop of \<open>_ollama_chat\<close>\<close>
  "clean_step clean m =
     (let role = fst m; content = snd m
      in if content = [] \<or> strip content = [] then clean
         else let role = (if role \<notin> set [''user'', ''assistant'', ''system''] then ''user''
                          else role)
              in if clean \<noteq> [] \<and> fst (last clean) = role \<and> role \<noteq> ''system''
                 then butlast clean @ [(role, snd (last clean) @ ''\<newline>'' @ content)]
                 else clean @ [(role, content)])"

definition ollama_chat ::
  "'e backend \<Rightarrow> 'e world \<Rightarrow> string \<Rightarrow> chat_message list \<Rightarrow> bool \<Rightarrow> string \<times> 'e world" where
  \<comment> \<open>\<open>_ollama_chat(model, messages, stream)\<close>, its chunks joined\<close>
  "ollama_chat be w model msgs stream =
     (let w = w\<lparr>inference_calls := inference_calls w + 1\<rparr>;
          clean = foldl clean_step [] msgs
      in if clean = [] then (''[BOLT: No context to send.]'', w)
         else let (text, e) = ollama_post be (env w) model clean stream
              in (text, w\<lparr>env := e\<rparr>))"

definition chat_full :: "'e backend \<Rightarrow> 'e world \<Rightarrow> string \<Rightarrow> chat_message list \<Rightarrow> string \<times> 'e world" where
  \<comment> \<open>\<open>_chat_full\<close>\<close>
  "chat_full be w model msgs = ollama_chat be w model msgs False"

definition classify :: "'e backend \<Rightarrow> 'e world \<Rightarrow> string \<Rightarrow> (py_error + string) \<times> 'e world" where
  \<comment> \<open>\<open>_classify(user_message)\<close>\<close>
  "classify be w user_message =
     (let prompt = ROUTER_PROMPT_format (take 500 user_message);
          msgs = [(''user'', prompt)]
      in case MODELS_lookup ''router'' of
           Inl err \<Rightarrow> (Inl err, w)
         | Inr router \<Rightarrow>
             let (text, w) = chat_full be w router msgs;
                 result = lower (strip text)
             in (case find (\<lambda>cat. sublist cat result)
                        [''cloud'', ''code_beast'', ''code_complex'', ''code_simple'',
                         ''companion''] of
                   Some cat \<Rightarrow> (Inr cat, w)
                 | None \<Rightarrow> (Inr ''companion'', w)))"

definition execute_tool :: "'e backend \<Rightarrow> 'e \<Rightarrow> string \<Rightarrow> string \<Rightarrow> (bool \<times> string) \<times> 'e" where
  \<comment> \<open>\<open>tools.execute_tool(name, args)\<close>\<close>
  "execute_tool be e name args =
     (case TOOLS be name of
        None \<Rightarrow> ((False, ''Unknown tool: '' @ name), e)
      | Some func \<Rightarrow>
          (case func e args of
             (Inr result, e') \<Rightarrow> ((True, result), e')
           | (Inl exn, e') \<Rightarrow> ((False, ''Tool error: '' @ exn), e')))"

fun run_tool_calls ::
  "'e backend \<Rightarrow> string \<Rightarrow> 'e world \<Rightarrow> (string \<times> string) list \<Rightarrow> string list \<Rightarrow>
   string list \<times> 'e world" where
  \<comment> \<open>the loop over \<open>tool_calls\<close>; the last argument is \<open>all_results\<close>\<close>
  "run_tool_calls be session_id w [] all_results = (all_results, w)"
| "run_tool_calls be session_id w ((tool_name, tool_args) # calls) all_results =
     (let d = log_event (store w) ''tool_call'' (Some (tool_name @ '': '' @ take 100 tool_args));
          ((success, result), e) = execute_tool be (env w) tool_name tool_args;
          d = log_event d ''tool_result''
                (Some (tool_name @ '': '' @ (if success then ''ok'' else ''err'')));
          formatted = format_tool_result tool_name result;
          d = snd (save_message d session_id ''tool'' (''Called '' @ tool_name));
          d = snd (save_message d session_id ''tool_result'' (take 500 result))
      in run_tool_calls be session_id (w\<lparr>env := e, store := d\<rparr>) calls
           (all_results @ [formatted]))"

definition cloud_turn ::
  "'e backend \<Rightarrow> templates \<Rightarrow> 'e world \<Rightarrow> chat_message list \<Rightarrow> string \<times> 'e world" where
  \<comment> \<open>the cloud branch of the loop body: \<open>cloud.chat\<close> and the handler of its exception\<close>
  "cloud_turn be cfg w msgs =
     (let w = w\<lparr>inference_calls := inference_calls w + 1\<rparr>;
          ((full_text, raised), e) = cloud_chat be (env w) msgs;
          w = w\<lparr>env := e\<rparr>
      in case raised of
           None \<Rightarrow> (full_text, w)
         | Some exn \<Rightarrow>
             (if full_text \<noteq> [] then full_text @ ''\<newline>[cloud connection lost, partial response]''
              else CLOUD_FAILED cfg,
              w\<lparr>store := log_event (store w) ''cloud_error'' (Some exn)\<rparr>))"

fun tool_loop ::
  "'e backend \<Rightarrow> templates \<Rightarrow> bool \<Rightarrow> string \<Rightarrow> string \<Rightarrow> bool \<Rightarrow> nat \<Rightarrow> nat \<Rightarrow> 'e world \<Rightarrow>
   chat_message list \<Rightarrow> string \<Rightarrow> string \<Rightarrow> string \<times> 'e world" where
  \<comment> \<open>\<open>for loop_num in range(MAX_TOOL_LOOPS)\<close> and the \<open>return\<close> after it: the rounds left,
      \<open>loop_num\<close>, the world, \<open>messages\<close>, \<open>accumulated_text\<close> and the \<open>full_text\<close> of the
      round before\<close>
  "tool_loop be cfg is_cloud model_name session_id streaming 0 loop_num w msgs
       accumulated_text full_text =
     (if accumulated_text \<noteq> [] then accumulated_text @ full_text else full_text, w)"
| "tool_loop be cfg is_cloud model_name session_id streaming (Suc n) loop_num w msgs
       accumulated_text previous_text =
     (let (full_text, w) =
            (if is_cloud then cloud_turn be cfg w msgs
             else if streaming \<and> loop_num = 0 then ollama_chat be w model_name msgs True
             else chat_full be w model_name msgs);
          (tool_calls, cleaned_text) = parse_tool_calls full_text
      in if tool_calls = []
         then (if accumulated_text \<noteq> [] then accumulated_text @ full_text else full_text, w)
         else let (all_results, w) = run_tool_calls be session_id w tool_calls [];
                  accumulated_text =
                    (if strip cleaned_text \<noteq> [] then accumulated_text @ cleaned_text @ ''\<newline>''
                     else accumulated_text);
                  msgs = msgs @ [(''assistant'', full_text),
                                 (''user'', ''Tool results:\<newline>'' @ join ''\<newline>'' all_results)]
              in tool_loop be cfg is_cloud model_name session_id streaming n (Suc loop_num) w msgs
                   accumulated_text full_text)"

definition generate_with_tools ::
  "'e backend \<Rightarrow> templates \<Rightarrow> 'e world \<Rightarrow> string \<Rightarrow> chat_message list \<Rightarrow> string \<Rightarrow> bool \<Rightarrow>
   (py_error + string) \<times> 'e world" where
  \<comment> \<open>\<open>_generate_with_tools(model_key, context, session_id, stream_callback)\<close>\<close>
  "generate_with_tools be cfg w model_key context session_id streaming =
     (let is_cloud = (model_key = ''cloud'')
      in case MODELS_lookup model_key of
           Inl err \<Rightarrow> (Inl err, w)
         | Inr model_name \<Rightarrow>
             let (text, w) = tool_loop be cfg is_cloud model_name session_id streaming
                               MAX_TOOL_LOOPS 0 w context [] []
             in (Inr text, w))"

definition process_message ::
  "'e backend \<Rightarrow> templates \<Rightarrow> string \<Rightarrow> 'e world \<Rightarrow> string \<Rightarrow> string \<Rightarrow> bool \<Rightarrow>
   (py_error + string) \<times> 'e world" where
  \<comment> \<open>\<open>process_message(session_id, user_message, stream_callback)\<close>; the third argument is
      the module variable \<open>_current_mode\<close>\<close>
  "process_message be cfg current_mode w session_id user_message streaming =
     (let w = w\<lparr>store := snd (save_message (store w) session_id ''user'' user_message)\<rparr>;
          (category, w) = classify be w user_message
      in case category of
           Inl err \<Rightarrow> (Inl err, w)
         | Inr category \<Rightarrow>
             let model_key = pick_model current_mode (cloud_is_available be (env w)) category;
                 effective_mode = pick_mode_for_category category;
                 w = w\<lparr>store := log_event (store w) ''route''
                        (Some (category @ '' -> '' @ model_key @ '' (mode='' @ effective_mode @
                               '')''))\<rparr>;
                 context = build_context_with_identity cfg (store w) session_id effective_mode;
                 (full_response, w) =
                   generate_with_tools be cfg w model_key context session_id streaming
             in case full_response of
                  Inl err \<Rightarrow> (Inl err, w)
                | Inr full_response \<Rightarrow>
                    let d = snd (save_message (store w) session_id ''assistant'' full_response);
                        d = log_event d ''response''
                              (Some (''model='' @ model_key @ '', len='' @
                                     show_nat (length full_response)))
                    in (Inr full_response, w\<lparr>store := d\<rparr>))"

text \<open>A model server that answers every request with a tool call, and no cloud.\<close>

definition looping_backend :: "unit backend" where
  "looping_backend =
     \<lparr>ollama_post = (\<lambda>e model msgs stream. (''<tool name=\"calc\">2+2</tool>'', e)),
      cloud_chat = (\<lambda>e msgs. (([], None), e)),
      cloud_is_available = (\<lambda>e. False),
      TOOLS = (\<lambda>name. None)\<rparr>"

definition fresh_world :: "unit world" where
  "fresh_world = \<lparr>env = (), store = empty_db, inference_calls = 0\<rparr>"

definition small_templates :: templates where
  "small_templates =
     \<lparr>BOLT_IDENTITY_head = ''You are BOLT.'', COMPANION_CONTEXT = ''Current mode: COMPANION'',
      BUILD_CONTEXT = ''Current mode: BUILD'', CODE_CONTEXT = ''Current mode: CODE'',
      PROFILE_FOOTER = ''Use it.'', CLOUD_FAILED = ''[BOLT: Cloud brain failed]''\<rparr>"

section \<open>tools.py: the sandbox of the write tools\<close>

text \<open>
  The file system is a state of an arbitrary type \<open>'fs\<close>; the tools reach it through the
  operations of \<open>os\<close> and \<open>open\<close> below, which the results leave arbitrary.  An operation
  that can raise returns the text of its exception; one that writes returns the new state,
  also when it raises.
\<close>

record 'fs os_ops =
  resolve :: "'fs \<Rightarrow> string \<Rightarrow> string"
    \<comment> \<open>\<open>os.path.realpath(os.path.expanduser(path))\<close>\<close>
  isfile :: "'fs \<Rightarrow> string \<Rightarrow> bool"
  read_text :: "'fs \<Rightarrow> string \<Rightarrow> string + string"
    \<comment> \<open>\<open>open(path, "r")\<close> and \<open>f.read()\<close>\<close>
  write_text :: "'fs \<Rightarrow> string \<Rightarrow> string \<Rightarrow> string option \<times> 'fs"
    \<comment> \<open>\<open>open(path, "w")\<close> and \<open>f.write(content)\<close>\<close>
  makedirs :: "'fs \<Rightarrow> string \<Rightarrow> string option \<times> 'fs"
    \<comment> \<open>\<open>os.makedirs(path, exist_ok=True)\<close>\<close>

definition path_join :: "string \<Rightarrow> string \<Rightarrow> string" where
  \<comment> \<open>\<open>os.path.join(a, b)\<close>\<close>
  "path_join a b =
     (if prefix ''/'' b then b
      else if a = [] \<or> suffix ''/'' a then a @ b
      else a @ ''/'' @ b)"

definition DENIED_PATHS :: "string \<Rightarrow> string list" where
  \<comment> \<open>\<open>_DENIED_PATHS\<close>, for the home directory \<open>_HOME_DIR\<close>\<close>
  "DENIED_PATHS home =
     [path_join home ''.ssh'',
      path_join home ''.gnupg'',
      path_join (path_join home ''.config'') ''autostart'']"

definition validate_path :: "'fs os_ops \<Rightarrow> string \<Rightarrow> 'fs \<Rightarrow> string \<Rightarrow> bool \<Rightarrow> string + string" where
  \<comment> \<open>\<open>_validate_path(path, allow_read_only)\<close>: \<open>Inl\<close> the error, \<open>Inr\<close> the resolved path\<close>
  "validate_path ops home fs path allow_read_only =
     (let resolved = resolve ops fs path
      in if \<not> prefix (home @ ''/'') resolved \<and> resolved \<noteq> home
         then Inl (''Access denied: path must be under '' @ home)
         else if \<not> allow_read_only
         then (case find (\<lambda>denied. prefix (denied @ ''/'') resolved \<or> resolved = denied)
                      (DENIED_PATHS home) of
                 Some denied \<Rightarrow> Inl (''Access denied: cannot write to '' @ denied)
               | None \<Rightarrow> Inr resolved)
         else Inr resolved)"

definition dirname :: "string \<Rightarrow> string" where
  \<comment> \<open>\<open>os.path.dirname\<close>\<close>
  "dirname p =
     (let head = rev (dropWhile (\<lambda>c. c \<noteq> CHR ''/'') (rev p))
      in if head \<noteq> [] \<and> head \<noteq> replicate (length head) (CHR ''/'')
         then rev (dropWhile (\<lambda>c. c = CHR ''/'') (rev head))
         else head)"

definition replace_first :: "string \<Rightarrow> string \<Rightarrow> string \<Rightarrow> string" where
  \<comment> \<open>\<open>s.replace(old, new, 1)\<close>\<close>
  "replace_first old new s =
     (case find_sub old s of
        None \<Rightarrow> s
      | Some (before, after) \<Rightarrow> before @ new @ after)"

definition tool_write_file :: "'fs os_ops \<Rightarrow> string \<Rightarrow> 'fs \<Rightarrow> string \<Rightarrow> string \<times> 'fs" where
  "tool_write_file ops home fs args =
     (let lines = split_nl 1 (strip args)
      in if length lines < 2
         then (''Usage: first line is file path, remaining lines are content.'', fs)
         else (case validate_path ops home fs (strip (lines ! 0)) False of
                 Inl err \<Rightarrow> (err, fs)
               | Inr path \<Rightarrow>
                   let content = lines ! 1
                   in (case makedirs ops fs (if dirname path \<noteq> [] then dirname path else ''.'') of
                         (Some exn, fs) \<Rightarrow> (''Error writing file: '' @ exn, fs)
                       | (None, fs) \<Rightarrow>
                           (case write_text ops fs path content of
                              (Some exn, fs) \<Rightarrow> (''Error writing file: '' @ exn, fs)
                            | (None, fs) \<Rightarrow>
                                (''Written to '' @ path @ '' ('' @ show_nat (length content) @
                                 '' bytes)'', fs)))))"

definition tool_edit_file :: "'fs os_ops \<Rightarrow> string \<Rightarrow> 'fs \<Rightarrow> string \<Rightarrow> string \<times> 'fs" where
  "tool_edit_file ops home fs args =
     (let lines = split_nl 2 (strip args)
      in if length lines < 3
         then (''Usage: line1=file path, line2=string to find, line3=replacement string'', fs)
         else (case validate_path ops home fs (strip (lines ! 0)) False of
                 Inl err \<Rightarrow> (err, fs)
               | Inr path \<Rightarrow>
                   let old = lines ! 1;
                       new = lines ! 2
                   in if \<not> isfile ops fs path then (''File not found: '' @ path, fs)
                      else (case read_text ops fs path of
                              Inl exn \<Rightarrow> (''Error editing file: '' @ exn, fs)
                            | Inr content \<Rightarrow>
                                if \<not> sublist old content
                                then (''String to replace not found in file.'', fs)
                                else (case write_text ops fs path (replace_first old new content) of
                                        (Some exn, fs) \<Rightarrow> (''Error editing file: '' @ exn, fs)
                                      | (None, fs) \<Rightarrow> (''Edited '' @ path, fs)))))"

definition under_path :: "string \<Rightarrow> string \<Rightarrow> bool" where
  \<comment> \<open>a path has a directory as a prefix: it is the directory or lies below it\<close>
  "under_path dir p = (p = dir \<or> prefix (dir @ ''/'') p)"

text \<open>A file system without links: a list of files with their contents.\<close>

definition plain_os :: "(string \<times> string) list os_ops" where
  "plain_os =
     \<lparr>resolve = (\<lambda>fs path. path),
      isfile = (\<lambda>fs path. map_of fs path \<noteq> None),
      read_text = (\<lambda>fs path. case map_of fs path of
                                  None \<Rightarrow> Inl ''No such file or directory''
                                | Some content \<Rightarrow> Inr content),
      write_text = (\<lambda>fs path content. (None, AList.update path content fs)),
      makedirs = (\<lambda>fs path. (None, fs))\<rparr>"

section \<open>Results\<close>

subsection \<open>C3: routing to the cloud and its fallback\<close>

text \<open>
  C3, as the code has it.  For every mode: with the cloud available, \<open>_pick_model\<close> sends both
  \<open>cloud\<close> and \<open>code_beast\<close> to the model key \<open>cloud\<close>; with the cloud unavailable it
  sends \<open>cloud\<close> to \<open>worker_heavy\<close> and \<open>code_beast\<close> to \<open>beast\<close>.
\<close>

theorem pick_model_cloud_routing:
  "pick_model mode True ''cloud'' = ''cloud'' \<and>
   pick_model mode True ''code_beast'' = ''cloud'' \<and>
   pick_model mode False ''cloud'' = ''worker_heavy'' \<and>
   pick_model mode False ''code_beast'' = ''beast''"
  by (simp add: pick_model_def)

text \<open>
  C3, as stated, fails: offline, \<open>cloud\<close> does not go to \<open>beast\<close> and \<open>code_beast\<close> does
  not go to \<open>worker_heavy\<close>.
\<close>

theorem pick_model_offline_counterexample:
  "\<not> (pick_model ''code'' False ''cloud'' = ''beast'' \<and>
      pick_model ''code'' False ''code_beast'' = ''worker_heavy'')"
  by (simp add: pick_model_def)

subsection \<open>C5: the stored token estimate\<close>

text \<open>
  C5, as the code has it.  For every content, the row that \<open>save_message\<close> appends holds the
  content and the estimate \<open>max(1, floor(len(content) / 4))\<close>; the rows before it are
  untouched.
\<close>

theorem save_message_token_estimate:
  "msg_token_estimate (last (messages (snd (save_message d sid role content)))) =
     Some (max 1 \<lfloor>real (length content) / 4\<rfloor>) \<and>
   msg_content (last (messages (snd (save_message d sid role content)))) = content \<and>
   butlast (messages (snd (save_message d sid role content))) = messages d"
proof -
  have "\<lfloor>real (length content) / 4\<rfloor> = int (length content) div 4"
    using floor_divide_of_nat_eq [of "length content" 4, where ?'a = real]
    by (simp add: zdiv_int)
  then show ?thesis
    by (simp add: save_message_def estimate_tokens_def CHARS_PER_TOKEN_def Let_def)
qed


text \<open>
  C5, as stated (with the ceiling), fails at a content of five characters: the stored
  estimate is 1, the ceiling of 5/4 is 2.
\<close>

theorem save_message_ceiling_counterexample:
  "msg_token_estimate (last (messages (snd (save_message empty_db ''s'' ''user'' ''hello'')))) \<noteq>
     Some (max 1 \<lceil>real (length ''hello'') / 4\<rceil>)"
proof -
  have "\<lceil>real (length ''hello'') / 4\<rceil> = 2"
    by (simp add: ceiling_eq_iff)
  then show ?thesis
    by (simp add: save_message_def estimate_tokens_def CHARS_PER_TOKEN_def Let_def)
qed


subsection \<open>C6: precedence of profile facts\<close>

lemma first_row_filter_map:
  assumes "first_row (filter P xs) = Some e" and "\<And>x. P (f x) = P x"
  shows "first_row (filter P (map (\<lambda>r. if P r then f r else r) xs)) = Some (f e)"
  using assms
  by (induction xs) (auto simp: first_row_def split: list.splits if_splits)

text \<open>
  C6.  For every existing profile fact at (category, key): \<open>save_fact\<close> with a strictly
  lower confidence leaves the store as it is; with a higher or equal confidence every row at
  (category, key) takes the new value, confidence and source, every other row and every
  other table stay as they are and no row is added, so the stored row is the old one with
  the new value, confidence and source.  In scenario S5 the table holds the one row
  \<open>Alex\<close> after the second call and the one row \<open>Alex2\<close> after the third.  (Confidence is
  a real number here; the comparison of two doubles that are not NaN is the comparison of
  their values.)
\<close>

theorem save_fact_precedence:
  assumes "stored_fact d category key = Some existing"
  shows "(confidence < prof_confidence existing \<longrightarrow>
            save_fact d category key val confidence source = d) \<and>
         (prof_confidence existing \<le> confidence \<longrightarrow>
            save_fact d category key val confidence source =
              d\<lparr>user_profile :=
                   map (\<lambda>r. if fact_at category key r
                              then r\<lparr>prof_value := val, prof_confidence := confidence,
                                     prof_source := source\<rparr>
                              else r) (user_profile d)\<rparr> \<and>
            stored_fact (save_fact d category key val confidence source) category key =
              Some (existing\<lparr>prof_value := val, prof_confidence := confidence,
                             prof_source := source\<rparr>)) \<and>
         user_profile S5_db2 =
           [\<lparr>prof_category = ''name'', prof_key = ''name'', prof_value = ''Alex'',
             prof_confidence = 0.9, prof_source = None\<rparr>] \<and>
         user_profile S5_db3 =
           [\<lparr>prof_category = ''name'', prof_key = ''name'', prof_value = ''Alex2'',
             prof_confidence = 0.9, prof_source = None\<rparr>] \<and>
         map_option prof_value (stored_fact S5_db2 ''name'' ''name'') = Some ''Alex'' \<and>
         map_option prof_value (stored_fact S5_db3 ''name'' ''name'') = Some ''Alex2''"
proof -
  have "first_row (filter (fact_at category key)
          (map (\<lambda>r. if fact_at category key r
                     then (\<lambda>r. r\<lparr>prof_value := val, prof_confidence := confidence,
                                  prof_source := source\<rparr>) r
                     else r) (user_profile d))) =
        Some ((\<lambda>r. r\<lparr>prof_value := val, prof_confidence := confidence,
                                  prof_source := source\<rparr>) existing)"
    using assms unfolding stored_fact_def
    by (rule first_row_filter_map) (simp add: fact_at_def)
  then have step: "(confidence < prof_confidence existing \<longrightarrow>
            save_fact d category key val confidence source = d) \<and>
         (prof_confidence existing \<le> confidence \<longrightarrow>
            save_fact d category key val confidence source =
              d\<lparr>user_profile :=
                   map (\<lambda>r. if fact_at category key r
                              then r\<lparr>prof_value := val, prof_confidence := confidence,
                                     prof_source := source\<rparr>
                              else r) (user_profile d)\<rparr> \<and>
            stored_fact (save_fact d category key val confidence source) category key =
              Some (existing\<lparr>prof_value := val, prof_confidence := confidence,
                             prof_source := source\<rparr>))"
    using assms by (simp add: save_fact_def stored_fact_def)
  have S5: "user_profile S5_db2 =
           [\<lparr>prof_category = ''name'', prof_key = ''name'', prof_value = ''Alex'',
             prof_confidence = 0.9, prof_source = None\<rparr>] \<and>
         user_profile S5_db3 =
           [\<lparr>prof_category = ''name'', prof_key = ''name'', prof_value = ''Alex2'',
             prof_confidence = 0.9, prof_source = None\<rparr>] \<and>
         map_option prof_value (stored_fact S5_db2 ''name'' ''name'') = Some ''Alex'' \<and>
         map_option prof_value (stored_fact S5_db3 ''name'' ''name'') = Some ''Alex2''"
    by (simp add: S5_db1_def S5_db2_def S5_db3_def save_fact_def stored_fact_def empty_db_def
        first_row_def fact_at_def)
  from step S5 show ?thesis by blast
qed

theorem save_fact_precedence_witness:
  "stored_fact S5_db1 ''name'' ''name'' =
     Some \<lparr>prof_category = ''name'', prof_key = ''name'', prof_value = ''Alex'',
           prof_confidence = 0.9, prof_source = None\<rparr> \<and>
   save_fact S5_db1 ''name'' ''name'' ''Ally'' 0.4 None = S5_db1 \<and>
   user_profile (save_fact S5_db1 ''name'' ''name'' ''Alex2'' 0.9 None) =
     [\<lparr>prof_category = ''name'', prof_key = ''name'', prof_value = ''Alex2'',
       prof_confidence = 0.9, prof_source = None\<rparr>] \<and>
   stored_fact (save_fact S5_db1 ''name'' ''name'' ''Alex2'' 0.9 None) ''name'' ''name'' =
     Some \<lparr>prof_category = ''name'', prof_key = ''name'', prof_value = ''Alex2'',
           prof_confidence = 0.9, prof_source = None\<rparr>"
proof -
  have h: "stored_fact S5_db1 ''name'' ''name'' =
     Some \<lparr>prof_category = ''name'', prof_key = ''name'', prof_value = ''Alex'',
           prof_confidence = 0.9, prof_source = None\<rparr>"
    by (simp add: S5_db1_def save_fact_def stored_fact_def empty_db_def first_row_def fact_at_def)
  have u: "user_profile S5_db1 =
     [\<lparr>prof_category = ''name'', prof_key = ''name'', prof_value = ''Alex'',
       prof_confidence = 0.9, prof_source = None\<rparr>]"
    by (simp add: S5_db1_def save_fact_def empty_db_def first_row_def)
  from save_fact_precedence [OF h, of "0.9" "''Alex2''" None]
  have "save_fact S5_db1 ''name'' ''name'' ''Alex2'' 0.9 None =
      S5_db1\<lparr>user_profile :=
                 map (\<lambda>r. if fact_at ''name'' ''name'' r
                            then r\<lparr>prof_value := ''Alex2'', prof_confidence := 0.9,
                                   prof_source := None\<rparr>
                            else r) (user_profile S5_db1)\<rparr>"
    by simp
  then have t: "user_profile (save_fact S5_db1 ''name'' ''name'' ''Alex2'' 0.9 None) =
     [\<lparr>prof_category = ''name'', prof_key = ''name'', prof_value = ''Alex2'',
       prof_confidence = 0.9, prof_source = None\<rparr>]"
    by (simp add: u fact_at_def)
  have lo: "save_fact S5_db1 ''name'' ''name'' ''Ally'' 0.4 None = S5_db1"
    using save_fact_precedence [OF h, of "0.4" "''Ally''" None] by simp
  have hi: "stored_fact (save_fact S5_db1 ''name'' ''name'' ''Alex2'' 0.9 None) ''name'' ''name'' =
     Some \<lparr>prof_category = ''name'', prof_key = ''name'', prof_value = ''Alex2'',
           prof_confidence = 0.9, prof_source = None\<rparr>"
  proof -
    have "prof_confidence \<lparr>prof_category = ''name'', prof_key = ''name'', prof_value = ''Alex'',
           prof_confidence = 0.9, prof_source = None\<rparr> \<le> 0.9"
      by simp
    with save_fact_precedence [OF h, of "0.9" "''Alex2''" None]
    have "stored_fact (save_fact S5_db1 ''name'' ''name'' ''Alex2'' 0.9 None) ''name'' ''name'' =
      Some (\<lparr>prof_category = ''name'', prof_key = ''name'', prof_value = ''Alex'',
             prof_confidence = 0.9, prof_source = None\<rparr>
            \<lparr>prof_value := ''Alex2'', prof_confidence := 0.9, prof_source := None\<rparr>)"
      by blast
    then show ?thesis
      by simp
  qed
  from h lo t hi show ?thesis
    by (intro conjI)
qed

text \<open>
  Rows written by \<open>save_fact\<close> keep (category, key) unique, as the table's \<open>UNIQUE\<close>
  constraint demands; on such a table the update changes exactly one row.
\<close>

lemma save_fact_unique:
  assumes "distinct (map (\<lambda>r. (prof_category r, prof_key r)) (user_profile d))"
  shows "distinct (map (\<lambda>r. (prof_category r, prof_key r))
           (user_profile (save_fact d category key val confidence source)))"
proof (cases "filter (fact_at category key) (user_profile d)")
  case Nil
  then have "\<forall>r\<in>set (user_profile d). \<not> fact_at category key r"
    by (simp add: filter_empty_conv)
  then have "(category, key) \<notin> set (map (\<lambda>r. (prof_category r, prof_key r)) (user_profile d))"
    by (auto simp: fact_at_def)
  with assms Nil show ?thesis
    by (simp add: save_fact_def first_row_def)
next
  case (Cons e es)
  have "map (\<lambda>r. (prof_category r, prof_key r))
          (map (\<lambda>r. if fact_at category key r
                     then r\<lparr>prof_value := val, prof_confidence := confidence,
                            prof_source := source\<rparr>
                     else r) (user_profile d)) =
        map (\<lambda>r. (prof_category r, prof_key r)) (user_profile d)"
    by (induction "user_profile d") auto
  with assms Cons show ?thesis
    by (simp add: save_fact_def first_row_def del: map_map)
qed

subsection \<open>C8: at most one active task\<close>

lemma length_filter_mono:
  "(\<And>x. x \<in> set xs \<Longrightarrow> P x \<Longrightarrow> Q x) \<Longrightarrow> length (filter P xs) \<le> length (filter Q xs)"
  by (induction xs) auto

lemma distinct_key_filter_le1:
  "distinct (map g xs) \<Longrightarrow> length (filter (\<lambda>x. g x = k) xs) \<le> Suc 0"
proof (induction xs)
  case Nil
  then show ?case by simp
next
  case (Cons x xs)
  show ?case
  proof (cases "g x = k")
    case True
    from Cons.prems have "\<forall>y\<in>set xs. g x \<noteq> g y"
      by (simp add: image_iff)
    with True have "filter (\<lambda>x. g x = k) xs = []"
      by (simp add: filter_empty_conv) metis
    with True show ?thesis by simp
  next
    case False
    with Cons show ?thesis by simp
  qed
qed

lemma map_update_by_key:
  assumes "distinct (map g xs)" and "i < length xs"
  shows "map (\<lambda>t. if g t = g (xs ! i) then f t else t) xs = xs[i := f (xs ! i)]"
proof (rule nth_equalityI)
  show "length (map (\<lambda>t. if g t = g (xs ! i) then f t else t) xs) = length (xs[i := f (xs ! i)])"
    by simp
next
  fix j assume "j < length (map (\<lambda>t. if g t = g (xs ! i) then f t else t) xs)"
  then have j: "j < length xs" by simp
  have "g (xs ! j) = g (xs ! i) \<longleftrightarrow> j = i"
    using assms j nth_eq_iff_index_eq [of "map g xs" j i] by simp
  with j assms(2) show "map (\<lambda>t. if g t = g (xs ! i) then f t else t) xs ! j = xs[i := f (xs ! i)] ! j"
    by (auto simp: nth_list_update)
qed

lemma first_row_filter_index:
  "first_row (filter P xs) = Some e \<Longrightarrow> \<exists>i<length xs. xs ! i = e \<and> P e"
proof -
  assume "first_row (filter P xs) = Some e"
  then obtain es where "filter P xs = e # es"
    by (cases "filter P xs") (auto simp: first_row_def)
  then have "e \<in> set (filter P xs)"
    by simp
  then show ?thesis by (auto simp: in_set_conv_nth)
qed

lemma upsert_task_in_place:
  assumes "tasks_wf d" and "first_row (active_tasks d) = Some e"
  shows "\<exists>i<length (tasks d). tasks d ! i = e \<and>
           tasks (upsert_task d now title status context_json) =
             (tasks d)[i := e\<lparr>task_title := title, task_status := status,
                               task_context_json := context_json, task_updated_at := now\<rparr>]"
proof -
  from first_row_filter_index [OF assms(2) [unfolded active_tasks_def]]
  obtain i where i: "i < length (tasks d)" "tasks d ! i = e"
    by blast
  from assms(1) have "distinct (map task_id (tasks d))" by (simp add: tasks_wf_def)
  from map_update_by_key [OF this i(1), of "\<lambda>t. t\<lparr>task_title := title, task_status := status,
        task_context_json := context_json, task_updated_at := now\<rparr>"]
  have "map (\<lambda>t. if task_id t = task_id e
                  then t\<lparr>task_title := title, task_status := status,
                         task_context_json := context_json, task_updated_at := now\<rparr>
                  else t) (tasks d) =
        (tasks d)[i := e\<lparr>task_title := title, task_status := status,
                            task_context_json := context_json, task_updated_at := now\<rparr>]"
    by (simp only: i(2))
  moreover have "tasks (upsert_task d now title status context_json) =
        map (\<lambda>t. if task_id t = task_id e
                  then t\<lparr>task_title := title, task_status := status,
                         task_context_json := context_json, task_updated_at := now\<rparr>
                  else t) (tasks d)"
    using assms(2) by (simp add: upsert_task_def active_tasks_def)
  ultimately have "tasks (upsert_task d now title status context_json) =
        (tasks d)[i := e\<lparr>task_title := title, task_status := status,
                            task_context_json := context_json, task_updated_at := now\<rparr>]"
    by simp
  with i show ?thesis by blast
qed

lemma upsert_task_insert:
  assumes "active_tasks d = []"
  shows "tasks (upsert_task d now title status context_json) =
           tasks d @ [\<lparr>task_id = tasks_seq d + 1, task_created_at = now, task_updated_at = now,
                        task_title = title, task_status = status,
                        task_context_json = context_json\<rparr>]"
  using assms by (simp add: upsert_task_def active_tasks_def first_row_def)

lemma upsert_task_invariant:
  assumes "tasks_wf d" and "length (active_tasks d) \<le> 1"
  shows "tasks_wf (upsert_task d now title status context_json) \<and>
         length (active_tasks (upsert_task d now title status context_json)) \<le> 1"
proof (cases "active_tasks d")
  case Nil
  then have "tasks_wf (upsert_task d now title status context_json)"
    using assms(1)
    by (auto simp: upsert_task_def active_tasks_def first_row_def tasks_wf_def list_all_iff)
  moreover have "length (active_tasks (upsert_task d now title status context_json)) \<le> 1"
    using Nil by (simp add: upsert_task_def active_tasks_def first_row_def)
  ultimately show ?thesis by simp
next
  case (Cons e es)
  with assms(2) have act: "active_tasks d = [e]" by simp
  let ?f = "\<lambda>t. if task_id t = task_id e
                  then t\<lparr>task_title := title, task_status := status,
                         task_context_json := context_json, task_updated_at := now\<rparr>
                  else t"
  have tasks': "tasks (upsert_task d now title status context_json) = map ?f (tasks d)"
    and seq': "tasks_seq (upsert_task d now title status context_json) = tasks_seq d"
    using act by (simp_all add: upsert_task_def active_tasks_def first_row_def)
  have ids: "map task_id (map ?f (tasks d)) = map task_id (tasks d)"
    by (induction "tasks d") auto
  have only: "\<And>t. t \<in> set (tasks d) \<Longrightarrow> task_status t = ''active'' \<Longrightarrow> t = e"
  proof -
    fix t assume "t \<in> set (tasks d)" "task_status t = ''active''"
    then have "t \<in> set (active_tasks d)" by (simp add: active_tasks_def)
    with act show "t = e" by simp
  qed
  have "length (filter (\<lambda>t. task_status t = ''active'') (map ?f (tasks d))) =
        length (filter (\<lambda>t. task_status (?f t) = ''active'') (tasks d))"
    by (simp add: filter_map o_def)
  also have "\<dots> \<le> length (filter (\<lambda>t. task_id t = task_id e) (tasks d))"
    by (rule length_filter_mono) (auto dest: only split: if_splits)
  also have "\<dots> \<le> Suc 0"
    using assms(1) by (intro distinct_key_filter_le1) (simp add: tasks_wf_def)
  finally have "length (active_tasks (upsert_task d now title status context_json)) \<le> 1"
    by (simp add: active_tasks_def tasks')
  moreover have "tasks_wf (upsert_task d now title status context_json)"
  proof -
    have "distinct (map task_id (map ?f (tasks d)))"
      using assms(1) unfolding ids by (simp add: tasks_wf_def)
    moreover have "list_all (\<lambda>t. task_id t \<le> tasks_seq d) (map ?f (tasks d))"
      using assms(1) by (auto simp: tasks_wf_def list_all_iff)
    ultimately show ?thesis
      unfolding tasks_wf_def tasks' seq' by blast
  qed
  ultimately show ?thesis by simp
qed

lemma complete_active_task_invariant:
  assumes "tasks_wf d"
  shows "tasks_wf (complete_active_task d now) \<and> active_tasks (complete_active_task d now) = []"
proof -
  let ?f = "\<lambda>t. if task_status t = ''active''
                  then t\<lparr>task_status := ''done'', task_updated_at := now\<rparr> else t"
  have ids: "map task_id (map ?f (tasks d)) = map task_id (tasks d)"
    by (induction "tasks d") auto
  have "tasks_wf (complete_active_task d now)"
  proof -
    have "distinct (map task_id (map ?f (tasks d)))"
      using assms unfolding ids by (simp add: tasks_wf_def)
    moreover have "list_all (\<lambda>t. task_id t \<le> tasks_seq d) (map ?f (tasks d))"
      using assms by (auto simp: tasks_wf_def list_all_iff)
    ultimately show ?thesis
      unfolding tasks_wf_def complete_active_task_def by simp
  qed
  moreover have "active_tasks (complete_active_task d now) = []"
    by (auto simp: active_tasks_def complete_active_task_def filter_empty_conv)
  ultimately show ?thesis by simp
qed

lemma run_task_ops_invariant:
  "tasks_wf d \<Longrightarrow> length (active_tasks d) \<le> 1 \<Longrightarrow>
   tasks_wf (run_task_ops d ops) \<and> length (active_tasks (run_task_ops d ops)) \<le> 1"
proof (induction ops arbitrary: d)
  case Nil
  then show ?case by (simp add: run_task_ops_def)
next
  case (Cons a ops)
  have "tasks_wf (apply_task_op d a) \<and> length (active_tasks (apply_task_op d a)) \<le> 1"
  proof (cases a)
    case (Upsert now title status ctx)
    with Cons.prems upsert_task_invariant show ?thesis by simp
  next
    case (Complete now)
    with Cons.prems complete_active_task_invariant [of d now] show ?thesis by simp
  qed
  with Cons.IH [of "apply_task_op d a"] show ?case
    by (simp add: run_task_ops_def)
qed

text \<open>
  C8.  From a store whose task table has unique ids and at most one row of status
  \<open>active\<close>, every sequence of \<open>upsert_task\<close> and \<open>complete_active_task\<close> calls leaves at
  most one row of status \<open>active\<close>.  When an active row exists, \<open>upsert_task\<close> rewrites
  that row where it stands and changes no other; when none exists, it appends one row.
\<close>

theorem singleton_active_task:
  assumes "tasks_wf d" and "length (active_tasks d) \<le> 1"
  shows "length (active_tasks (run_task_ops d ops)) \<le> 1 \<and>
         (\<forall>e. first_row (active_tasks d) = Some e \<longrightarrow>
            (\<exists>i<length (tasks d). tasks d ! i = e \<and>
               tasks (upsert_task d now title status context_json) =
                 (tasks d)[i := e\<lparr>task_title := title, task_status := status,
                                   task_context_json := context_json,
                                   task_updated_at := now\<rparr>])) \<and>
         (active_tasks d = [] \<longrightarrow>
            tasks (upsert_task d now title status context_json) =
              tasks d @ [\<lparr>task_id = tasks_seq d + 1, task_created_at = now,
                          task_updated_at = now, task_title = title, task_status = status,
                          task_context_json = context_json\<rparr>])"
  using run_task_ops_invariant [OF assms, of ops]
        upsert_task_in_place [OF assms(1), of _ now title status context_json]
        upsert_task_insert [of d now title status context_json]
  by blast

theorem singleton_active_task_witness:
  "tasks_wf empty_db \<and> length (active_tasks empty_db) \<le> 1 \<and>
   length (active_tasks (run_task_ops empty_db
     [Upsert 1 ''parser'' ''active'' None, Upsert 2 ''lexer'' ''active'' None,
      Complete 3, Upsert 4 ''printer'' ''active'' None])) \<le> 1 \<and>
   tasks (upsert_task empty_db 1 ''parser'' ''active'' None) =
     [\<lparr>task_id = 1, task_created_at = 1, task_updated_at = 1, task_title = ''parser'',
       task_status = ''active'', task_context_json = None\<rparr>] \<and>
   tasks_wf (upsert_task empty_db 1 ''parser'' ''active'' None) \<and>
   tasks (upsert_task (upsert_task empty_db 1 ''parser'' ''active'' None)
            2 ''lexer'' ''active'' None) =
     [\<lparr>task_id = 1, task_created_at = 1, task_updated_at = 2, task_title = ''lexer'',
       task_status = ''active'', task_context_json = None\<rparr>]"
proof -
  have wf0: "tasks_wf empty_db" and a0: "active_tasks empty_db = []"
    by (simp_all add: tasks_wf_def active_tasks_def empty_db_def)
  then have le0: "length (active_tasks empty_db) \<le> 1"
    by simp
  have t1: "tasks (upsert_task empty_db 1 ''parser'' ''active'' None) =
     [\<lparr>task_id = 1, task_created_at = 1, task_updated_at = 1, task_title = ''parser'',
       task_status = ''active'', task_context_json = None\<rparr>]"
    using singleton_active_task [OF wf0 le0, of "[]" 1 "''parser''" "''active''" None] a0
    by (simp add: empty_db_def)
  have wf1: "tasks_wf (upsert_task empty_db 1 ''parser'' ''active'' None)"
    unfolding tasks_wf_def t1 by (simp add: upsert_task_def empty_db_def first_row_def)
  have a1: "active_tasks (upsert_task empty_db 1 ''parser'' ''active'' None) =
     [\<lparr>task_id = 1, task_created_at = 1, task_updated_at = 1, task_title = ''parser'',
       task_status = ''active'', task_context_json = None\<rparr>]"
    unfolding active_tasks_def t1 by simp
  then have le1: "length (active_tasks (upsert_task empty_db 1 ''parser'' ''active'' None)) \<le> 1"
    by simp
  have t2: "tasks (upsert_task (upsert_task empty_db 1 ''parser'' ''active'' None)
            2 ''lexer'' ''active'' None) =
     [\<lparr>task_id = 1, task_created_at = 1, task_updated_at = 2, task_title = ''lexer'',
       task_status = ''active'', task_context_json = None\<rparr>]"
    using singleton_active_task [OF wf1 le1, of "[]" 2 "''lexer''" "''active''" None]
    unfolding a1 t1 by (simp add: first_row_def)
  from singleton_active_task [OF wf0 le0,
      of "[Upsert 1 ''parser'' ''active'' None, Upsert 2 ''lexer'' ''active'' None,
           Complete 3, Upsert 4 ''printer'' ''active'' None]"] wf0 le0 t1 wf1 t2
  show ?thesis by simp
qed

subsection \<open>C4: the prompt sanitizer\<close>

lemma replace_Nil: "old \<noteq> [] \<Longrightarrow> replace old new [] = []"
  by (simp add: replace.simps)

lemma replace_match:
  "old \<noteq> [] \<Longrightarrow> prefix old s \<Longrightarrow> replace old new s = new @ replace old new (drop (length old) s)"
  by (subst replace.simps) auto

lemma replace_skip:
  "old \<noteq> [] \<Longrightarrow> \<not> prefix old (c # s) \<Longrightarrow> replace old new (c # s) = c # replace old new s"
  by (subst replace.simps) simp

lemma set_replace: "old \<noteq> [] \<Longrightarrow> set (replace old new s) \<subseteq> set s \<union> set new"
proof (induction old new s rule: replace.induct)
  case (1 old new s)
  show ?case
  proof (cases s)
    case Nil
    with "1.prems" show ?thesis by (simp add: replace_Nil)
  next
    case (Cons c cs)
    show ?thesis
    proof (cases "prefix old s")
      case True
      with "1.IH"(1) "1.prems" Cons
      have "set (replace old new (drop (length old) s)) \<subseteq> set (drop (length old) s) \<union> set new"
        by simp
      moreover have "set (drop (length old) s) \<subseteq> set s"
        by (rule set_drop_subset)
      ultimately show ?thesis
        using True "1.prems" by (auto simp: replace_match)
    next
      case False
      with "1.IH"(2) "1.prems" Cons
      have "set (replace old new cs) \<subseteq> set cs \<union> set new"
        by simp
      with False Cons "1.prems" show ?thesis
        by (auto simp: replace_skip)
    qed
  qed
qed

lemma replace_removes_char: "c \<notin> set new \<Longrightarrow> c \<notin> set (replace [c] new s)"
proof (induction s)
  case Nil
  then show ?case by (simp add: replace_Nil)
next
  case (Cons x xs)
  show ?case
  proof (cases "x = c")
    case True
    then have "replace [c] new (x # xs) = new @ replace [c] new xs"
      by (simp add: replace_match)
    with Cons show ?thesis by simp
  next
    case False
    then have "replace [c] new (x # xs) = x # replace [c] new xs"
      by (simp add: replace_skip)
    with Cons False show ?thesis by simp
  qed
qed

lemma prefix_replace_reflect:
  "old \<noteq> [] \<Longrightarrow> new \<noteq> [] \<Longrightarrow> hd new \<notin> set q \<Longrightarrow>
   prefix q (replace old new s) \<Longrightarrow> prefix q s"
proof (induction old new s arbitrary: q rule: replace.induct)
  case (1 old new s)
  show ?case
  proof (cases q)
    case Nil
    then show ?thesis by simp
  next
    case qc: (Cons x q')
    show ?thesis
    proof (cases s)
      case Nil
      with "1.prems" qc show ?thesis by (simp add: replace_Nil)
    next
      case (Cons c cs)
      show ?thesis
      proof (cases "prefix old s")
        case True
        with "1.prems" have "prefix q (new @ replace old new (drop (length old) s))"
          by (simp add: replace_match)
        with qc "1.prems"(2) have "x = hd new"
          by (cases new) auto
        with qc "1.prems"(3) show ?thesis by simp
      next
        case False
        with "1.prems" Cons have "prefix q (c # replace old new cs)"
          by (simp add: replace_skip)
        with qc have xc: "x = c" and pq: "prefix q' (replace old new cs)"
          by simp_all
        from "1.prems"(3) qc have "hd new \<notin> set q'" by simp
        with "1.IH"(2) [of q'] "1.prems"(1,2) Cons False pq
        have "prefix q' cs" by simp
        with xc qc Cons show ?thesis by simp
      qed
    qed
  qed
qed

lemma sublist_skip_prefix:
  "c \<notin> set xs \<Longrightarrow> sublist (c # q) (xs @ ys) \<Longrightarrow> sublist (c # q) ys"
  by (induction xs) (auto simp: sublist_Cons_right)

lemma sublist_skip_suffix:
  assumes "p \<noteq> []" and "last p \<notin> set ys" and "sublist p (xs @ ys)"
  shows "sublist p xs"
proof -
  from assms(1) obtain q where q: "rev p = last p # q"
    by (cases p rule: rev_cases) auto
  from assms(3) have "sublist (rev p) (rev (xs @ ys))"
    by (simp only: sublist_rev)
  then have "sublist (last p # q) (rev ys @ rev xs)"
    by (simp only: q rev_append)
  moreover from assms(2) have "last p \<notin> set (rev ys)"
    by simp
  ultimately have "sublist (last p # q) (rev xs)"
    by (rule sublist_skip_prefix [rotated])
  then have "sublist (rev p) (rev xs)"
    by (simp only: q)
  then show ?thesis by (simp only: sublist_rev)
qed

lemma sublist_replace_reflect:
  "old \<noteq> [] \<Longrightarrow> new \<noteq> [] \<Longrightarrow> c \<notin> set new \<Longrightarrow> hd new \<notin> set q \<Longrightarrow>
   sublist (c # q) (replace old new s) \<Longrightarrow> sublist (c # q) s \<and> old \<noteq> c # q"
proof (induction old new s rule: replace.induct)
  case (1 old new s)
  show ?case
  proof (cases s)
    case Nil
    with "1.prems" show ?thesis by (simp add: replace_Nil)
  next
    case (Cons x xs)
    show ?thesis
    proof (cases "prefix old s")
      case True
      with "1.prems" have "sublist (c # q) (new @ replace old new (drop (length old) s))"
        by (simp add: replace_match)
      with "1.prems"(3) have "sublist (c # q) (replace old new (drop (length old) s))"
        by (rule sublist_skip_prefix)
      with "1.IH"(1) "1.prems"(1-4) Cons True
      have "sublist (c # q) (drop (length old) s) \<and> old \<noteq> c # q"
        by simp
      moreover have "sublist (drop (length old) s) s"
        by simp
      ultimately show ?thesis
        using sublist_order.order.trans by blast
    next
      case False
      with "1.prems" Cons have "sublist (c # q) (x # replace old new xs)"
        by (simp add: replace_skip)
      then consider "prefix (c # q) (x # replace old new xs)" | "sublist (c # q) (replace old new xs)"
        by (auto simp: sublist_Cons_right)
      then show ?thesis
      proof cases
        case 1
        then have xc: "x = c" and "prefix q (replace old new xs)" by simp_all
        with prefix_replace_reflect [OF "1.prems"(1,2,4)] have "prefix q xs" by blast
        with xc Cons have "prefix (c # q) s" by simp
        with False show ?thesis by auto
      next
        case 2
        with "1.IH"(2) "1.prems"(1-4) Cons False
        have "sublist (c # q) xs \<and> old \<noteq> c # q" by simp
        with Cons show ?thesis by (auto simp: sublist_Cons_right)
      qed
    qed
  qed
qed


lemma replace_no_occurrence: "old \<noteq> [] \<Longrightarrow> hd old \<notin> set s \<Longrightarrow> replace old new s = s"
proof (induction s)
  case Nil
  then show ?case by (simp add: replace_Nil)
next
  case (Cons c cs)
  then have "\<not> prefix old (c # cs)"
    by (cases old) auto
  with Cons show ?case by (simp add: replace_skip)
qed

lemma sanitize_for_prompt_unfold:
  "s \<noteq> [] \<Longrightarrow>
   t = replace ''</tool'' ''&lt;/tool'' (replace ''<tool'' ''&lt;tool''
         (replace ''}'' [] (replace ''{'' [] s))) \<Longrightarrow>
   sanitize_for_prompt s = (if length t > 2000 then take 2000 t @ ''...'' else t)"
  by (simp add: sanitize_for_prompt_def Let_def)

lemma not_sublist_truncate:
  assumes "p \<noteq> []" and "last p \<noteq> CHR ''.''" and "\<not> sublist p t"
  shows "\<not> sublist p (if length t > n then take n t @ ''...'' else t)"
proof (cases "length t > n")
  case True
  have "\<not> sublist p (take n t @ ''...'')"
  proof
    assume "sublist p (take n t @ ''...'')"
    with assms(1,2) have "sublist p (take n t)"
      by (intro sublist_skip_suffix [of p "''...''" "take n t"]) auto
    then have "sublist p t"
      using sublist_take [of n t] sublist_order.order.trans by blast
    with assms(3) show False by simp
  qed
  with True show ?thesis by simp
next
  case False
  with assms(3) show ?thesis by simp
qed

text \<open>
  C4, as the code has it.  For every input, the output of \<open>_sanitize_for_prompt\<close> has no
  \<open>{\<close>, no \<open>}\<close>, no substring \<open><tool\<close> and no substring \<open></tool\<close>, and its length
  is at most 2003: a longer text is cut to its first 2000 characters and \<open>...\<close> is appended.
\<close>

theorem sanitize_for_prompt_safe:
  "CHR ''{'' \<notin> set (sanitize_for_prompt s) \<and>
   CHR ''}'' \<notin> set (sanitize_for_prompt s) \<and>
   \<not> sublist ''<tool'' (sanitize_for_prompt s) \<and>
   \<not> sublist ''</tool'' (sanitize_for_prompt s) \<and>
   length (sanitize_for_prompt s) \<le> 2003"
proof (cases "s = []")
  case True
  then show ?thesis by (simp add: sanitize_for_prompt_def)
next
  case False
  define t1 where "t1 = replace ''{'' [] s"
  define t2 where "t2 = replace ''}'' [] t1"
  define t3 where "t3 = replace ''<tool'' ''&lt;tool'' t2"
  define t4 where "t4 = replace ''</tool'' ''&lt;/tool'' t3"
  have res: "sanitize_for_prompt s = (if length t4 > 2000 then take 2000 t4 @ ''...'' else t4)"
    using False by (rule sanitize_for_prompt_unfold) (simp add: t1_def t2_def t3_def t4_def)
  have b1: "CHR ''{'' \<notin> set t1"
    unfolding t1_def using replace_removes_char [of "CHR ''{''" "[]" s] by simp
  have s2: "set t2 \<subseteq> set t1"
    unfolding t2_def using set_replace [of "''}''" "[]" t1] by simp
  have b2: "CHR ''}'' \<notin> set t2"
    unfolding t2_def using replace_removes_char [of "CHR ''}''" "[]" t1] by simp
  have s3: "set t3 \<subseteq> set t2 \<union> set ''&lt;tool''"
    unfolding t3_def by (rule set_replace) simp
  have s4: "set t4 \<subseteq> set t3 \<union> set ''&lt;/tool''"
    unfolding t4_def by (rule set_replace) simp
  from b1 s2 b2 s3 s4 have braces: "CHR ''{'' \<notin> set t4" "CHR ''}'' \<notin> set t4"
    by auto
  have o3: "\<not> sublist ''<tool'' t3"
    unfolding t3_def
    using sublist_replace_reflect [of "''<tool''" "''&lt;tool''" "CHR ''<''" "''tool''" t2]
    by auto
  have o4: "\<not> sublist ''<tool'' t4"
    unfolding t4_def
    using sublist_replace_reflect [of "''</tool''" "''&lt;/tool''" "CHR ''<''" "''tool''" t3] o3
    by auto
  have c4: "\<not> sublist ''</tool'' t4"
    unfolding t4_def
    using sublist_replace_reflect [of "''</tool''" "''&lt;/tool''" "CHR ''<''" "''/tool''" t3]
    by auto
  have "set (sanitize_for_prompt s) \<subseteq> set t4 \<union> {CHR ''.''}"
    unfolding res using set_take_subset [of 2000 t4] by auto
  with braces have r1: "CHR ''{'' \<notin> set (sanitize_for_prompt s)"
    and r2: "CHR ''}'' \<notin> set (sanitize_for_prompt s)"
    by auto
  have r3: "\<not> sublist ''<tool'' (sanitize_for_prompt s)"
    unfolding res using o4 by (intro not_sublist_truncate) simp_all
  have r4: "\<not> sublist ''</tool'' (sanitize_for_prompt s)"
    unfolding res using c4 by (intro not_sublist_truncate) simp_all
  have r5: "length (sanitize_for_prompt s) \<le> 2003"
    unfolding res by simp
  from r1 r2 r3 r4 r5 show ?thesis by blast
qed

text \<open>
  C4, as stated (length at most 2000), fails on 2001 letters: the output is 2000 letters
  and three dots.
\<close>

theorem sanitize_for_prompt_length_counterexample:
  "\<not> length (sanitize_for_prompt (replicate 2001 (CHR ''a''))) \<le> 2000"
proof -
  let ?s = "replicate 2001 (CHR ''a'')"
  have ne: "?s \<noteq> []" by simp
  have "replace ''</tool'' ''&lt;/tool'' (replace ''<tool'' ''&lt;tool''
         (replace ''}'' [] (replace ''{'' [] ?s))) = ?s"
    by (simp add: replace_no_occurrence)
  from sanitize_for_prompt_unfold [OF ne this [symmetric]]
  have "sanitize_for_prompt ?s = take 2000 ?s @ ''...''"
    by simp
  then show ?thesis by simp
qed

subsection \<open>C7: the context budget\<close>

lemma select_recent_sum:
  "sum_list (map row_cost (select_recent budget tc rows)) \<le> max 0 (budget - tc)"
proof (induction rows arbitrary: tc)
  case Nil
  then show ?case by simp
next
  case (Cons row rows)
  show ?case
  proof (cases "tc + row_cost row > budget")
    case True
    then show ?thesis by simp
  next
    case False
    with Cons [of "tc + row_cost row"] show ?thesis
      by (simp add: Let_def)
  qed
qed

lemma select_recent_subset: "set (select_recent budget tc rows) \<subseteq> set rows"
  by (induction rows arbitrary: tc) (auto simp: Let_def)

lemma get_recent_messages_subset: "set (get_recent_messages d sid n) \<subseteq> set (messages d)"
  by (auto simp: get_recent_messages_def dest!: in_set_takeD)

lemma estimate_tokens_pos: "1 \<le> estimate_tokens s"
  by (simp add: estimate_tokens_def)

lemma recent_tokens:
  assumes "messages_estimated d"
  shows "context_tokens (map (\<lambda>row. (wire_role (msg_role row), msg_content row))
           (rev (select_recent budget 0 (rev (get_recent_messages d sid n))))) \<le> max 0 budget"
proof -
  let ?sel = "select_recent budget 0 (rev (get_recent_messages d sid n))"
  have "\<And>r. r \<in> set ?sel \<Longrightarrow> estimate_tokens (msg_content r) = row_cost r"
  proof -
    fix r assume "r \<in> set ?sel"
    then have "r \<in> set (messages d)"
      using select_recent_subset get_recent_messages_subset by fastforce
    with assms show "estimate_tokens (msg_content r) = row_cost r"
      by (simp add: messages_estimated_def list_all_iff row_cost_def estimate_tokens_def)
  qed
  then have eq: "map (\<lambda>r. estimate_tokens (msg_content r)) ?sel = map row_cost ?sel"
    by simp
  have "context_tokens (map (\<lambda>row. (wire_role (msg_role row), msg_content row)) (rev ?sel)) =
        sum_list (map (\<lambda>r. estimate_tokens (msg_content r)) (rev ?sel))"
    by (simp add: context_tokens_def o_def)
  also have "\<dots> = sum_list (map (\<lambda>r. estimate_tokens (msg_content r)) ?sel)"
    by (simp only: rev_map [symmetric] sum_list_rev)
  also have "\<dots> = sum_list (map row_cost ?sel)"
    by (simp only: eq)
  also have "\<dots> \<le> max 0 (budget - 0)"
    by (rule select_recent_sum)
  finally show ?thesis by simp
qed

lemma context_tokens_append: "context_tokens (xs @ ys) = context_tokens xs + context_tokens ys"
  by (simp add: context_tokens_def)

lemma build_context_shape:
  "\<exists>extra budget rest.
     build_context_with_identity cfg d sid mode =
       (''system'', build_identity cfg d mode (Some sid)) # extra @ rest \<and>
     rest = map (\<lambda>row. (wire_role (msg_role row), msg_content row))
              (rev (select_recent budget 0 (rev (get_recent_messages d sid 50)))) \<and>
     context_tokens extra + max 0 budget \<le>
       max 0 (MAX_CONTEXT_TOKENS - estimate_tokens (build_identity cfg d mode (Some sid)))"
proof -
  define b0 where "b0 = MAX_CONTEXT_TOKENS - estimate_tokens (build_identity cfg d mode (Some sid))"
  define idm where "idm = (''system'', build_identity cfg d mode (Some sid))"
  define step1 where "step1 =
            (case get_latest_summary d sid of
               None \<Rightarrow> ([idm], b0)
             | Some summary \<Rightarrow>
                 let summary_text = ''[Conversation summary so far]: '' @ sum_summary summary;
                     cost = estimate_tokens summary_text
                 in if cost < b0
                    then ([idm] @ [(''system'', summary_text)], b0 - cost)
                    else ([idm], b0))"
  define step2 where "step2 =
            (case get_active_task d of
               None \<Rightarrow> (fst step1, snd step1)
             | Some task \<Rightarrow>
                 let task_text = ''[Current task]: '' @ task_title task @ '' (status: '' @
                                 task_status task @ '')'';
                     cost = estimate_tokens task_text
                 in if cost < snd step1
                    then (fst step1 @ [(''system'', task_text)], snd step1 - cost)
                    else (fst step1, snd step1))"
  have unfold: "build_context_with_identity cfg d sid mode =
      fst step2 @ map (\<lambda>row. (wire_role (msg_role row), msg_content row))
              (rev (select_recent (snd step2) 0 (rev (get_recent_messages d sid 50))))"
    by (simp add: build_context_with_identity_def Let_def step2_def step1_def idm_def b0_def
        split_beta split: option.splits)
  have s1: "\<exists>e1. fst step1 = idm # e1 \<and> context_tokens e1 + max 0 (snd step1) \<le> max 0 b0"
    using estimate_tokens_pos
    by (auto simp: step1_def Let_def context_tokens_def split: option.splits)
  then obtain e1 where e1: "fst step1 = idm # e1" "context_tokens e1 + max 0 (snd step1) \<le> max 0 b0"
    by blast
  have "\<exists>e2. fst step2 = fst step1 @ e2 \<and> context_tokens e2 + max 0 (snd step2) \<le> max 0 (snd step1)"
    using estimate_tokens_pos
    by (auto simp: step2_def Let_def context_tokens_def split: option.splits)
  then obtain e2 where e2: "fst step2 = fst step1 @ e2"
      "context_tokens e2 + max 0 (snd step2) \<le> max 0 (snd step1)"
    by blast
  from e1 e2 have "fst step2 = idm # (e1 @ e2)"
    and "context_tokens (e1 @ e2) + max 0 (snd step2) \<le> max 0 b0"
    by (simp_all add: context_tokens_append)
  with unfold have "build_context_with_identity cfg d sid mode =
       idm # (e1 @ e2) @ map (\<lambda>row. (wire_role (msg_role row), msg_content row))
              (rev (select_recent (snd step2) 0 (rev (get_recent_messages d sid 50)))) \<and>
     context_tokens (e1 @ e2) + max 0 (snd step2) \<le> max 0 b0"
    by simp
  then show ?thesis
    unfolding idm_def b0_def by blast
qed

lemma save_message_estimated:
  "messages_estimated d \<Longrightarrow> messages_estimated (snd (save_message d sid role content))"
  by (simp add: messages_estimated_def save_message_def Let_def)

text \<open>
  C7.  For every session, mode and store whose message rows hold the estimate that
  \<open>save_message\<close> stores, the token estimates of the assembled context sum to at most
  \<open>MAX_CONTEXT_TOKENS\<close> plus the estimate of the identity briefing.  The first message is
  the identity briefing, and the messages after it sum to at most what the identity leaves
  of the budget (nothing, when the identity alone exceeds it).
\<close>

theorem context_budget_safety:
  assumes "messages_estimated d"
  shows "context_tokens (build_context_with_identity cfg d sid mode) \<le>
           MAX_CONTEXT_TOKENS + estimate_tokens (build_identity cfg d mode (Some sid)) \<and>
         hd (build_context_with_identity cfg d sid mode) =
           (''system'', build_identity cfg d mode (Some sid)) \<and>
         context_tokens (tl (build_context_with_identity cfg d sid mode)) \<le>
           max 0 (MAX_CONTEXT_TOKENS - estimate_tokens (build_identity cfg d mode (Some sid)))"
proof -
  let ?idt = "build_identity cfg d mode (Some sid)"
  from build_context_shape [of cfg d sid mode]
  obtain extra budget rest where
    ctx: "build_context_with_identity cfg d sid mode = (''system'', ?idt) # extra @ rest" and
    rest: "rest = map (\<lambda>row. (wire_role (msg_role row), msg_content row))
              (rev (select_recent budget 0 (rev (get_recent_messages d sid 50))))" and
    bound: "context_tokens extra + max 0 budget \<le> max 0 (MAX_CONTEXT_TOKENS - estimate_tokens ?idt)"
    by blast
  from recent_tokens [OF assms] rest have "context_tokens rest \<le> max 0 budget"
    by simp
  with bound have others: "context_tokens (extra @ rest) \<le>
      max 0 (MAX_CONTEXT_TOKENS - estimate_tokens ?idt)"
    by (simp add: context_tokens_append)
  have "context_tokens ((''system'', ?idt) # extra @ rest) =
      estimate_tokens ?idt + context_tokens (extra @ rest)"
    by (simp add: context_tokens_def)
  with others estimate_tokens_pos [of ?idt]
  have "context_tokens ((''system'', ?idt) # extra @ rest) \<le> MAX_CONTEXT_TOKENS + estimate_tokens ?idt"
    by (simp add: MAX_CONTEXT_TOKENS_def)
  with others ctx show ?thesis by simp
qed

theorem context_budget_safety_witness:
  "messages_estimated (snd (save_message empty_db ''s1'' ''user'' ''hello'')) \<and>
   context_tokens (build_context_with_identity
       small_templates
       (snd (save_message empty_db ''s1'' ''user'' ''hello'')) ''s1'' ''companion'') \<le>
     MAX_CONTEXT_TOKENS + estimate_tokens (build_identity
       small_templates
       (snd (save_message empty_db ''s1'' ''user'' ''hello'')) ''companion'' (Some ''s1''))"
proof -
  have h: "messages_estimated (snd (save_message empty_db ''s1'' ''user'' ''hello''))"
    by (simp add: messages_estimated_def save_message_def empty_db_def Let_def)
  from context_budget_safety [OF h] h show ?thesis
    by blast
qed

text \<open>The same bound for \<open>memory.build_context\<close>, where the system prompt takes the place of the identity.\<close>

lemma build_context_budget:
  assumes "messages_estimated d"
  shows "context_tokens (build_context d sid system_prompt) \<le>
           MAX_CONTEXT_TOKENS + (if system_prompt = [] then 0 else estimate_tokens system_prompt)"
proof -
  define step0 where "step0 =
            (if system_prompt \<noteq> []
             then ([] @ [(''system'', system_prompt)],
                   MAX_CONTEXT_TOKENS - estimate_tokens system_prompt)
             else ([], MAX_CONTEXT_TOKENS))"
  define step1 where "step1 =
            (case get_latest_summary d sid of
               None \<Rightarrow> (fst step0, snd step0)
             | Some summary \<Rightarrow>
                 let summary_text = ''[Conversation summary so far]: '' @ sum_summary summary;
                     cost = estimate_tokens summary_text
                 in if cost < snd step0
                    then (fst step0 @ [(''system'', summary_text)], snd step0 - cost)
                    else (fst step0, snd step0))"
  define step2 where "step2 =
            (case get_active_task d of
               None \<Rightarrow> (fst step1, snd step1)
             | Some task \<Rightarrow>
                 let task_text = ''[Current task]: '' @ task_title task @ '' (status: '' @
                                 task_status task @ '')'';
                     cost = estimate_tokens task_text
                 in if cost < snd step1
                    then (fst step1 @ [(''system'', task_text)], snd step1 - cost)
                    else (fst step1, snd step1))"
  define rest where "rest = map (\<lambda>row. (wire_role (msg_role row), msg_content row))
              (rev (select_recent (snd step2) 0 (rev (get_recent_messages d sid 50))))"
  have unfold: "build_context d sid system_prompt = fst step2 @ rest"
    by (simp add: build_context_def Let_def step2_def step1_def step0_def rest_def
        split_beta split: option.splits)
  have s0: "context_tokens (fst step0) + max 0 (snd step0) \<le>
      MAX_CONTEXT_TOKENS + (if system_prompt = [] then 0 else estimate_tokens system_prompt)"
    using estimate_tokens_pos [of system_prompt]
    by (auto simp: step0_def context_tokens_def MAX_CONTEXT_TOKENS_def)
  have s1: "context_tokens (fst step1) + max 0 (snd step1) \<le>
      context_tokens (fst step0) + max 0 (snd step0)"
    using estimate_tokens_pos
    by (auto simp: step1_def Let_def context_tokens_def split: option.splits)
  have s2: "context_tokens (fst step2) + max 0 (snd step2) \<le>
      context_tokens (fst step1) + max 0 (snd step1)"
    using estimate_tokens_pos
    by (auto simp: step2_def Let_def context_tokens_def split: option.splits)
  have "context_tokens rest \<le> max 0 (snd step2)"
    unfolding rest_def using assms by (rule recent_tokens)
  with s0 s1 s2 show ?thesis
    unfolding unfold by (simp add: context_tokens_append)
qed

subsection \<open>C9: parsing the cleaned text again\<close>

















subsection \<open>C2: the number of inference calls of a turn\<close>

lemma ollama_chat_calls:
  "inference_calls (snd (ollama_chat be w model msgs stream)) = inference_calls w + 1"
  by (simp add: ollama_chat_def Let_def split_beta)

lemma cloud_turn_calls:
  "inference_calls (snd (cloud_turn be cfg w msgs)) = inference_calls w + 1"
  by (simp add: cloud_turn_def Let_def split_beta split: option.splits)

lemma run_tool_calls_calls:
  "inference_calls (snd (run_tool_calls be sid w calls results)) = inference_calls w"
proof (induction calls arbitrary: w results)
  case Nil
  then show ?case by simp
next
  case (Cons call calls)
  obtain tool_name tool_args where call: "call = (tool_name, tool_args)"
    by (cases call)
  show ?case
    unfolding call run_tool_calls.simps Let_def split_beta
    by (simp add: Cons.IH)
qed

lemma tool_loop_calls:
  "inference_calls (snd (tool_loop be cfg is_cloud model sid streaming n loop_num w msgs acc prev))
     \<le> inference_calls w + n"
proof (induction n arbitrary: loop_num w msgs acc prev)
  case 0
  then show ?case by simp
next
  case (Suc n)
  define turn where "turn =
            (if is_cloud then cloud_turn be cfg w msgs
             else if streaming \<and> loop_num = 0 then ollama_chat be w model msgs True
             else chat_full be w model msgs)"
  have turn_calls: "inference_calls (snd turn) = inference_calls w + 1"
    by (simp add: turn_def cloud_turn_calls ollama_chat_calls chat_full_def)
  show ?case
  proof (cases "fst (parse_tool_calls (fst turn)) = []")
    case True
    then show ?thesis
      using turn_calls by (simp add: Let_def split_beta turn_def [symmetric])
  next
    case False
    define w' where "w' = snd (run_tool_calls be sid (snd turn) (fst (parse_tool_calls (fst turn))) [])"
    have "inference_calls w' = inference_calls w + 1"
      by (simp add: w'_def run_tool_calls_calls turn_calls)
    with False show ?thesis
      using Suc.IH [of "Suc loop_num" w']
      by (simp add: Let_def split_beta turn_def [symmetric] w'_def [symmetric])
  qed
qed

lemma MODELS_lookup_router: "MODELS_lookup ''router'' = Inr ''qwen2.5:1.5b''"
  by (simp add: MODELS_lookup_def MODELS_def)

lemma classify_calls:
  "inference_calls (snd (classify be w m)) = inference_calls w + 1"
  by (simp add: classify_def MODELS_lookup_router Let_def split_beta chat_full_def
      ollama_chat_calls split: option.splits)

lemma generate_with_tools_calls:
  "inference_calls (snd (generate_with_tools be cfg w key ctx sid streaming))
     \<le> inference_calls w + MAX_TOOL_LOOPS"
  by (simp add: generate_with_tools_def Let_def split_beta tool_loop_calls split: sum.splits)

lemma generate_with_tools_calls_le:
  "inference_calls w + MAX_TOOL_LOOPS \<le> k \<Longrightarrow>
   inference_calls (snd (generate_with_tools be cfg w key ctx sid streaming)) \<le> k"
  using generate_with_tools_calls [of be cfg w key ctx sid streaming] by simp

lemma process_message_calls:
  "inference_calls (snd (process_message be cfg mode w sid user_message streaming))
     \<le> inference_calls w + MAX_TOOL_LOOPS + 1"
  unfolding process_message_def Let_def split_beta
  by (auto split: sum.splits simp: classify_calls intro!: generate_with_tools_calls_le)

text \<open>
  C2, as the code has it.  For every session, user message, mode and backend, one call of
  \<open>process_message\<close> makes at most \<open>MAX_TOOL_LOOPS + 1\<close> calls of the inference client:
  exactly one in \<open>_classify\<close> and at most \<open>MAX_TOOL_LOOPS\<close> in \<open>_generate_with_tools\<close>.
\<close>

theorem process_message_inference_calls:
  "inference_calls (snd (classify be w user_message)) = inference_calls w + 1 \<and>
   inference_calls (snd (generate_with_tools be cfg w key ctx sid streaming))
     \<le> inference_calls w + MAX_TOOL_LOOPS \<and>
   inference_calls (snd (process_message be cfg mode w sid user_message streaming))
     \<le> inference_calls w + MAX_TOOL_LOOPS + 1"
  using classify_calls generate_with_tools_calls process_message_calls by blast

lemma clean_step_nonempty: "clean \<noteq> [] \<Longrightarrow> clean_step clean m \<noteq> []"
  by (simp add: clean_step_def Let_def)

lemma foldl_clean_step_nonempty: "clean \<noteq> [] \<Longrightarrow> foldl clean_step clean msgs \<noteq> []"
  by (induction msgs arbitrary: clean) (simp_all add: clean_step_nonempty)

lemma in_set_dropWhile: "x \<in> set xs \<Longrightarrow> \<not> P x \<Longrightarrow> x \<in> set (dropWhile P xs)"
  by (induction xs) auto

lemma strip_nonempty: "\<not> is_space c \<Longrightarrow> strip (c # s) \<noteq> []"
proof -
  assume c: "\<not> is_space c"
  then have "c \<in> set (rev (dropWhile is_space (c # s)))"
    by simp
  from this c have "c \<in> set (dropWhile is_space (rev (dropWhile is_space (c # s))))"
    by (rule in_set_dropWhile)
  then show ?thesis
    unfolding strip_def by (metis empty_iff empty_set rev_is_Nil_conv)
qed

lemma looping_parse:
  "parse_tool_calls ''<tool name=\"calc\">2+2</tool>'' = ([(''calc'', ''2+2'')], [])"
  by code_simp

lemma looping_ollama_chat:
  "foldl clean_step [] msgs \<noteq> [] \<Longrightarrow>
   fst (ollama_chat looping_backend w model msgs stream) = ''<tool name=\"calc\">2+2</tool>''"
  by (simp add: ollama_chat_def looping_backend_def Let_def)

lemma tool_loop_looping:
  "foldl clean_step [] msgs \<noteq> [] \<Longrightarrow>
   inference_calls (snd (tool_loop looping_backend cfg False model sid streaming n loop_num w
     msgs acc prev)) = inference_calls w + n"
proof (induction n arbitrary: loop_num w msgs acc prev)
  case 0
  then show ?case by simp
next
  case (Suc n)
  define turn where "turn =
            (if streaming \<and> loop_num = 0 then ollama_chat looping_backend w model msgs True
             else chat_full looping_backend w model msgs)"
  have t1: "fst turn = ''<tool name=\"calc\">2+2</tool>''"
    using Suc.prems by (simp add: turn_def chat_full_def looping_ollama_chat)
  have t2: "inference_calls (snd turn) = inference_calls w + 1"
    by (simp add: turn_def chat_full_def ollama_chat_calls)
  define w' where "w' = snd (run_tool_calls looping_backend sid (snd turn) [(''calc'', ''2+2'')] [])"
  have w': "inference_calls w' = inference_calls w + 1"
    unfolding w'_def by (simp only: run_tool_calls_calls t2)
  have step: "tool_loop looping_backend cfg False model sid streaming (Suc n) loop_num w msgs
      acc prev =
    tool_loop looping_backend cfg False model sid streaming n (Suc loop_num) w'
      (msgs @ [(''assistant'', fst turn),
               (''user'', ''Tool results:\<newline>'' @ join ''\<newline>''
                  (fst (run_tool_calls looping_backend sid (snd turn) [(''calc'', ''2+2'')] [])))])
      (if strip [] \<noteq> [] then acc @ [] @ ''\<newline>'' else acc) (fst turn)"
    unfolding tool_loop.simps Let_def split_beta if_False turn_def [symmetric]
    unfolding t1 looping_parse w'_def by simp
  have "foldl clean_step [] (msgs @ [(''assistant'', fst turn),
               (''user'', ''Tool results:\<newline>'' @ join ''\<newline>''
                  (fst (run_tool_calls looping_backend sid (snd turn) [(''calc'', ''2+2'')] [])))])
        \<noteq> []"
    unfolding foldl_append using Suc.prems by (rule foldl_clean_step_nonempty)
  from Suc.IH [OF this] w' show ?case
    unfolding step by simp
qed

lemma pick_model_offline_key:
  "pick_model mode False category \<noteq> ''cloud'' \<and>
   (\<exists>m. MODELS_lookup (pick_model mode False category) = Inr m)"
  by (auto simp: pick_model_def MODELS_lookup_def MODELS_def)

lemma classify_category: "\<exists>category. fst (classify be w m) = Inr category"
  by (simp add: classify_def MODELS_lookup_router Let_def split_beta split: option.splits)

lemma small_identity:
  "\<exists>rest. build_identity small_templates d mode sid = CHR ''Y'' # rest"
  by (simp add: build_identity_def small_templates_def BOLT_IDENTITY_format_def Let_def
      split: option.splits)

lemma small_context_clean:
  "foldl clean_step [] (build_context_with_identity small_templates d sid mode) \<noteq> []"
proof -
  from build_context_shape [of small_templates d sid mode] small_identity [of d mode "Some sid"]
  obtain rest others where
    "build_context_with_identity small_templates d sid mode = (''system'', CHR ''Y'' # rest) # others"
    by auto
  moreover have "clean_step [] (''system'', CHR ''Y'' # rest) = [(''system'', CHR ''Y'' # rest)]"
    using strip_nonempty [of "CHR ''Y''" rest] by (simp add: clean_step_def is_space_def)
  ultimately show ?thesis
    by (simp add: foldl_clean_step_nonempty)
qed

lemma generate_with_tools_looping:
  assumes "key \<noteq> ''cloud''" and "MODELS_lookup key = Inr m"
    and "foldl clean_step [] ctx \<noteq> []"
  shows "inference_calls (snd (generate_with_tools looping_backend cfg w key ctx sid streaming)) =
         inference_calls w + MAX_TOOL_LOOPS"
  using assms by (simp add: generate_with_tools_def Let_def split_beta tool_loop_looping)

lemma process_message_looping:
  "inference_calls (snd (process_message looping_backend small_templates mode w sid
     user_message streaming)) = inference_calls w + MAX_TOOL_LOOPS + 1"
proof -
  define w1 where "w1 = w\<lparr>store := snd (save_message (store w) sid ''user'' user_message)\<rparr>"
  obtain category where cat: "fst (classify looping_backend w1 user_message) = Inr category"
    using classify_category by blast
  obtain m where key: "pick_model mode False category \<noteq> ''cloud''"
      "MODELS_lookup (pick_model mode False category) = Inr m"
    using pick_model_offline_key by blast
  have av: "\<And>e. cloud_is_available looping_backend e = False"
    by (simp add: looping_backend_def)
  show ?thesis
    unfolding process_message_def Let_def split_beta w1_def [symmetric] cat av
    by (simp add: generate_with_tools_looping [OF key small_context_clean] classify_calls w1_def
        split: sum.splits)
qed

text \<open>
  C2, as stated (at most \<open>MAX_TOOL_LOOPS\<close> calls in total), fails when the model answers
  every request with a tool call: one classification call and 25 generation calls.
\<close>

theorem process_message_calls_counterexample:
  "\<not> inference_calls (snd (process_message looping_backend small_templates ''companion''
        fresh_world ''s1'' ''hello'' False)) \<le> MAX_TOOL_LOOPS"
  by (simp add: process_message_looping)

subsection \<open>C10: classification reads a bounded prefix\<close>

text \<open>
  C10.  For every backend and world, two user messages with the same first 500 characters
  are classified alike: \<open>_classify\<close> returns the same category and leaves the same world.
\<close>

theorem classify_prefix_only:
  assumes "take 500 m1 = take 500 m2"
  shows "classify be w m1 = classify be w m2"
  using assms by (simp add: classify_def)

theorem classify_prefix_only_witness:
  "take 500 (replicate 500 (CHR ''a'') @ ''write a compiler'') =
     take 500 (replicate 500 (CHR ''a'') @ ''say hello'') \<and>
   classify looping_backend fresh_world (replicate 500 (CHR ''a'') @ ''write a compiler'') =
     classify looping_backend fresh_world (replicate 500 (CHR ''a'') @ ''say hello'')"
proof -
  have h: "take 500 (replicate 500 (CHR ''a'') @ ''write a compiler'') =
     take 500 (replicate 500 (CHR ''a'') @ ''say hello'')"
    by simp
  from classify_prefix_only [OF h] h show ?thesis
    by blast
qed

subsection \<open>C1: confinement of the write tools\<close>

lemma validate_path_denied:
  assumes "\<not> prefix home (resolve ops fs path) \<or> \<not> under_path home (resolve ops fs path) \<or>
           (\<exists>d\<in>set (DENIED_PATHS home). under_path d (resolve ops fs path))"
  shows "\<exists>err. validate_path ops home fs path False = Inl (''Access denied'' @ err)"
proof (cases "under_path home (resolve ops fs path)")
  case False
  then show ?thesis
    by (auto simp: validate_path_def under_path_def Let_def)
next
  case True
  then have "prefix home (resolve ops fs path)"
    by (auto simp: under_path_def prefix_def)
  with True assms obtain d where d: "d \<in> set (DENIED_PATHS home)" "under_path d (resolve ops fs path)"
    by blast
  then have "find (\<lambda>denied. prefix (denied @ ''/'') (resolve ops fs path) \<or> resolve ops fs path = denied)
                      (DENIED_PATHS home) \<noteq> None"
    by (auto simp: find_None_iff under_path_def)
  then show ?thesis
    by (auto simp: validate_path_def Let_def)
qed

lemma not_prefix_not_under: "\<not> prefix dir p \<Longrightarrow> \<not> under_path dir p"
  by (auto simp: under_path_def prefix_def)

lemma tool_write_file_allowed:
  "tool_write_file plain_os ''/home/user'' [(''/etc/passwd'', ''root:x:0:0'')]
     ''/home/user/notes/a.txt\<newline>hello'' =
   (''Written to /home/user/notes/a.txt (5 bytes)'',
    [(''/etc/passwd'', ''root:x:0:0''), (''/home/user/notes/a.txt'', ''hello'')])"
  by code_simp

text \<open>A directory whose name only begins like a denied one is not denied.\<close>

lemma tool_write_file_beside_denied:
  "tool_write_file plain_os ''/home/user'' [] ''/home/user/.sshx/a.txt\<newline>hello'' =
   (''Written to /home/user/.sshx/a.txt (5 bytes)'', [(''/home/user/.sshx/a.txt'', ''hello'')])"
  by code_simp

text \<open>
  C1.  For every path passed to \<open>tool_write_file\<close> or \<open>tool_edit_file\<close> (the stripped first
  line of an argument of at least two, respectively three, lines): if the resolved path does
  not have the home directory as a prefix (as a string, or as a directory: it is neither the
  home directory nor below it), or is one of the denied directories or lies below one, the tool
  returns a text that begins with \<open>Access denied\<close> and the file system is the one it was
  given.  In particular, where \<open>/etc/passwd\<close> resolves to itself and is not under the home
  directory, \<open>write_file\<close> with first line \<open>/etc/passwd\<close> is denied and nothing is written.
\<close>

theorem write_tools_confined:
  "(length (split_nl 1 (strip args)) \<ge> 2 \<and>
    (\<not> prefix home (resolve ops fs (strip (split_nl 1 (strip args) ! 0))) \<or>
     \<not> under_path home (resolve ops fs (strip (split_nl 1 (strip args) ! 0))) \<or>
     (\<exists>d\<in>set (DENIED_PATHS home).
        under_path d (resolve ops fs (strip (split_nl 1 (strip args) ! 0))))) \<longrightarrow>
    prefix ''Access denied'' (fst (tool_write_file ops home fs args)) \<and>
    snd (tool_write_file ops home fs args) = fs) \<and>
   (length (split_nl 2 (strip args)) \<ge> 3 \<and>
    (\<not> prefix home (resolve ops fs (strip (split_nl 2 (strip args) ! 0))) \<or>
     \<not> under_path home (resolve ops fs (strip (split_nl 2 (strip args) ! 0))) \<or>
     (\<exists>d\<in>set (DENIED_PATHS home).
        under_path d (resolve ops fs (strip (split_nl 2 (strip args) ! 0))))) \<longrightarrow>
    prefix ''Access denied'' (fst (tool_edit_file ops home fs args)) \<and>
    snd (tool_edit_file ops home fs args) = fs) \<and>
   (resolve ops fs ''/etc/passwd'' = ''/etc/passwd'' \<and> \<not> under_path home ''/etc/passwd'' \<longrightarrow>
    prefix ''Access denied'' (fst (tool_write_file ops home fs ''/etc/passwd\<newline>root::0:0:::'')) \<and>
    snd (tool_write_file ops home fs ''/etc/passwd\<newline>root::0:0:::'') = fs)"
proof (intro conjI impI)
  assume a: "length (split_nl 1 (strip args)) \<ge> 2 \<and>
    (\<not> prefix home (resolve ops fs (strip (split_nl 1 (strip args) ! 0))) \<or>
     \<not> under_path home (resolve ops fs (strip (split_nl 1 (strip args) ! 0))) \<or>
     (\<exists>d\<in>set (DENIED_PATHS home).
        under_path d (resolve ops fs (strip (split_nl 1 (strip args) ! 0)))))"
  then have "\<not> prefix home (resolve ops fs (strip (split_nl 1 (strip args) ! 0))) \<or>
     \<not> under_path home (resolve ops fs (strip (split_nl 1 (strip args) ! 0))) \<or>
     (\<exists>d\<in>set (DENIED_PATHS home).
        under_path d (resolve ops fs (strip (split_nl 1 (strip args) ! 0))))"
    by (rule conjunct2)
  from validate_path_denied [OF this] obtain err where
    "validate_path ops home fs (strip (split_nl 1 (strip args) ! 0)) False = Inl (''Access denied'' @ err)"
    by (rule exE)
  with a have "tool_write_file ops home fs args = (''Access denied'' @ err, fs)"
    by (simp add: tool_write_file_def Let_def)
  then show "prefix ''Access denied'' (fst (tool_write_file ops home fs args))"
    and "snd (tool_write_file ops home fs args) = fs"
    by simp_all
next
  assume a: "length (split_nl 2 (strip args)) \<ge> 3 \<and>
    (\<not> prefix home (resolve ops fs (strip (split_nl 2 (strip args) ! 0))) \<or>
     \<not> under_path home (resolve ops fs (strip (split_nl 2 (strip args) ! 0))) \<or>
     (\<exists>d\<in>set (DENIED_PATHS home).
        under_path d (resolve ops fs (strip (split_nl 2 (strip args) ! 0)))))"
  then have "\<not> prefix home (resolve ops fs (strip (split_nl 2 (strip args) ! 0))) \<or>
     \<not> under_path home (resolve ops fs (strip (split_nl 2 (strip args) ! 0))) \<or>
     (\<exists>d\<in>set (DENIED_PATHS home).
        under_path d (resolve ops fs (strip (split_nl 2 (strip args) ! 0))))"
    by (rule conjunct2)
  from validate_path_denied [OF this] obtain err where
    "validate_path ops home fs (strip (split_nl 2 (strip args) ! 0)) False = Inl (''Access denied'' @ err)"
    by (rule exE)
  with a have "tool_edit_file ops home fs args = (''Access denied'' @ err, fs)"
    by (simp add: tool_edit_file_def Let_def)
  then show "prefix ''Access denied'' (fst (tool_edit_file ops home fs args))"
    and "snd (tool_edit_file ops home fs args) = fs"
    by simp_all
next
  assume a: "resolve ops fs ''/etc/passwd'' = ''/etc/passwd'' \<and> \<not> under_path home ''/etc/passwd''"
  have sp: "split_nl 1 (strip ''/etc/passwd\<newline>root::0:0:::'') = [''/etc/passwd'', ''root::0:0:::'']"
    by code_simp
  have st: "strip ''/etc/passwd'' = ''/etc/passwd''"
    by code_simp
  from a have "\<not> prefix home (resolve ops fs ''/etc/passwd'') \<or>
     \<not> under_path home (resolve ops fs ''/etc/passwd'') \<or>
     (\<exists>d\<in>set (DENIED_PATHS home). under_path d (resolve ops fs ''/etc/passwd''))"
    by simp
  from validate_path_denied [OF this] obtain err where
    "validate_path ops home fs ''/etc/passwd'' False = Inl (''Access denied'' @ err)"
    by (rule exE)
  then have "tool_write_file ops home fs ''/etc/passwd\<newline>root::0:0:::'' = (''Access denied'' @ err, fs)"
    unfolding tool_write_file_def Let_def sp by (simp add: st)
  then show "prefix ''Access denied'' (fst (tool_write_file ops home fs ''/etc/passwd\<newline>root::0:0:::''))"
    and "snd (tool_write_file ops home fs ''/etc/passwd\<newline>root::0:0:::'') = fs"
    by simp_all
qed


theorem write_tools_confined_witness:
  "prefix ''Access denied''
     (fst (tool_write_file plain_os ''/home/user'' [(''/etc/passwd'', ''root:x:0:0'')]
        ''/home/user/.gnupg/trustdb\<newline>key'')) \<and>
   snd (tool_write_file plain_os ''/home/user'' [(''/etc/passwd'', ''root:x:0:0'')]
        ''/home/user/.gnupg/trustdb\<newline>key'') = [(''/etc/passwd'', ''root:x:0:0'')] \<and>
   prefix ''Access denied''
     (fst (tool_edit_file plain_os ''/home/user'' [(''/home/user/.ssh/authorized_keys'', ''ssh-rsa A'')]
        ''/home/user/.ssh/authorized_keys\<newline>ssh-rsa A\<newline>ssh-rsa B'')) \<and>
   snd (tool_edit_file plain_os ''/home/user'' [(''/home/user/.ssh/authorized_keys'', ''ssh-rsa A'')]
        ''/home/user/.ssh/authorized_keys\<newline>ssh-rsa A\<newline>ssh-rsa B'') =
     [(''/home/user/.ssh/authorized_keys'', ''ssh-rsa A'')] \<and>
   prefix ''Access denied''
     (fst (tool_write_file plain_os ''/home/user'' [(''/etc/passwd'', ''root:x:0:0'')]
        ''/etc/passwd\<newline>root::0:0:::'')) \<and>
   snd (tool_write_file plain_os ''/home/user'' [(''/etc/passwd'', ''root:x:0:0'')]
        ''/etc/passwd\<newline>root::0:0:::'') = [(''/etc/passwd'', ''root:x:0:0'')]"
proof -
  have h1: "length (split_nl 1 (strip ''/home/user/.gnupg/trustdb\<newline>key'')) \<ge> 2 \<and>
    (\<not> prefix ''/home/user'' (resolve plain_os [(''/etc/passwd'', ''root:x:0:0'')]
         (strip (split_nl 1 (strip ''/home/user/.gnupg/trustdb\<newline>key'') ! 0))) \<or>
     \<not> under_path ''/home/user'' (resolve plain_os [(''/etc/passwd'', ''root:x:0:0'')]
         (strip (split_nl 1 (strip ''/home/user/.gnupg/trustdb\<newline>key'') ! 0))) \<or>
     (\<exists>d\<in>set (DENIED_PATHS ''/home/user'').
        under_path d (resolve plain_os [(''/etc/passwd'', ''root:x:0:0'')]
         (strip (split_nl 1 (strip ''/home/user/.gnupg/trustdb\<newline>key'') ! 0)))))"
    by code_simp
  have h2: "length (split_nl 2 (strip ''/home/user/.ssh/authorized_keys\<newline>ssh-rsa A\<newline>ssh-rsa B'')) \<ge> 3 \<and>
    (\<not> prefix ''/home/user'' (resolve plain_os [(''/home/user/.ssh/authorized_keys'', ''ssh-rsa A'')]
         (strip (split_nl 2 (strip ''/home/user/.ssh/authorized_keys\<newline>ssh-rsa A\<newline>ssh-rsa B'') ! 0))) \<or>
     \<not> under_path ''/home/user'' (resolve plain_os [(''/home/user/.ssh/authorized_keys'', ''ssh-rsa A'')]
         (strip (split_nl 2 (strip ''/home/user/.ssh/authorized_keys\<newline>ssh-rsa A\<newline>ssh-rsa B'') ! 0))) \<or>
     (\<exists>d\<in>set (DENIED_PATHS ''/home/user'').
        under_path d (resolve plain_os [(''/home/user/.ssh/authorized_keys'', ''ssh-rsa A'')]
         (strip (split_nl 2 (strip ''/home/user/.ssh/authorized_keys\<newline>ssh-rsa A\<newline>ssh-rsa B'') ! 0)))))"
    by code_simp
  have h3: "resolve plain_os [(''/etc/passwd'', ''root:x:0:0'')] ''/etc/passwd'' = ''/etc/passwd'' \<and>
    \<not> under_path ''/home/user'' ''/etc/passwd''"
    by code_simp
  from write_tools_confined [of "''/home/user/.gnupg/trustdb\<newline>key''" "''/home/user''" plain_os
      "[(''/etc/passwd'', ''root:x:0:0'')]"] h1 h3
  have w: "prefix ''Access denied''
     (fst (tool_write_file plain_os ''/home/user'' [(''/etc/passwd'', ''root:x:0:0'')]
        ''/home/user/.gnupg/trustdb\<newline>key'')) \<and>
   snd (tool_write_file plain_os ''/home/user'' [(''/etc/passwd'', ''root:x:0:0'')]
        ''/home/user/.gnupg/trustdb\<newline>key'') = [(''/etc/passwd'', ''root:x:0:0'')] \<and>
   prefix ''Access denied''
     (fst (tool_write_file plain_os ''/home/user'' [(''/etc/passwd'', ''root:x:0:0'')]
        ''/etc/passwd\<newline>root::0:0:::'')) \<and>
   snd (tool_write_file plain_os ''/home/user'' [(''/etc/passwd'', ''root:x:0:0'')]
        ''/etc/passwd\<newline>root::0:0:::'') = [(''/etc/passwd'', ''root:x:0:0'')]"
    by blast
  from write_tools_confined [of "''/home/user/.ssh/authorized_keys\<newline>ssh-rsa A\<newline>ssh-rsa B''"
      "''/home/user''" plain_os "[(''/home/user/.ssh/authorized_keys'', ''ssh-rsa A'')]"] h2
  have e: "prefix ''Access denied''
     (fst (tool_edit_file plain_os ''/home/user'' [(''/home/user/.ssh/authorized_keys'', ''ssh-rsa A'')]
        ''/home/user/.ssh/authorized_keys\<newline>ssh-rsa A\<newline>ssh-rsa B'')) \<and>
   snd (tool_edit_file plain_os ''/home/user'' [(''/home/user/.ssh/authorized_keys'', ''ssh-rsa A'')]
        ''/home/user/.ssh/authorized_keys\<newline>ssh-rsa A\<newline>ssh-rsa B'') =
     [(''/home/user/.ssh/authorized_keys'', ''ssh-rsa A'')]"
    by blast
  from w e show ?thesis by blast
qed

end
